theory Spec2Isabelle
  imports Complex_Main "HOL-Library.Word"
begin

unbundle bit_operations_syntax

section \<open>Data model of the TDM scheduler (net/mptcp/mptcp_tdm.c)\<close>

type_synonym u8 = "8 word"
type_synonym u32 = "32 word"

text \<open>
  The C type \<^verbatim>\<open>int\<close> is a 32-bit word read through \<open>sint\<close>; the kernel is built
  with wrapping signed arithmetic, so \<open>+\<close>, \<open>-\<close> and \<open>*\<close> on the word are the
  operations of the code.
\<close>

type_synonym c_int = "32 word"

datatype tcp_ca_state = TCP_CA_Open | TCP_CA_Disorder | TCP_CA_CWR | TCP_CA_Recovery | TCP_CA_Loss

text \<open>
  One subflow: the fields of \<^verbatim>\<open>struct tcp_sock\<close>, \<^verbatim>\<open>struct mptcp_tcp_sock\<close> and
  \<^verbatim>\<open>struct tdmsched_priv\<close> that the scheduler reads or writes. The results of the
  header helpers the file calls on a subflow and whose bodies are not part of it are
  fields as well: \<open>can_send\<close> is \<^verbatim>\<open>mptcp_sk_can_send(sk)\<close>, \<open>is_reno\<close> is
  \<^verbatim>\<open>tcp_is_reno(tp)\<close>, \<open>packets_in_flight\<close> is \<^verbatim>\<open>tcp_packets_in_flight(tp)\<close>,
  \<open>wnd_end\<close> is \<^verbatim>\<open>tcp_wnd_end(tp)\<close> and \<open>current_mss\<close> is \<^verbatim>\<open>tcp_current_mss(sk)\<close>.
  \<open>quota\<close> is \<^verbatim>\<open>tdmsched_get_priv(tp)->quota\<close>.
\<close>

record tcp_sock =
  curr_tdn :: u8
  path_index :: u8
  can_send :: bool
  pre_established :: bool
  pf :: bool
  icsk_ca_state :: tcp_ca_state
  is_reno :: bool
  snd_una :: u32
  high_seq :: u32
  fully_established :: bool
  second_packet :: bool
  last_end_data_seq :: u32
  packets_in_flight :: u32
  snd_cwnd :: u32
  mss_cache :: u32
  write_seq :: u32
  snd_nxt :: u32
  wnd_end :: u32
  current_mss :: u32
  quota :: c_int

text \<open>
  One segment (\<^verbatim>\<open>struct sk_buff\<close> with its control block): \<open>skb_seq\<close> is
  \<^verbatim>\<open>TCP_SKB_CB(skb)->seq\<close>, \<open>skb_len\<close> is \<^verbatim>\<open>skb->len\<close>, \<open>path_mask\<close> is
  \<^verbatim>\<open>TCP_SKB_CB(skb)->path_mask\<close> and \<open>data_fin\<close> is \<^verbatim>\<open>mptcp_is_data_fin(skb)\<close>.
\<close>

record sk_buff =
  skb_seq :: u32
  skb_len :: u32
  path_mask :: u32
  data_fin :: bool

text \<open>
  The meta socket with its \<^verbatim>\<open>struct mptcp_cb\<close>. \<open>subflows\<close> is the list that
  \<^verbatim>\<open>mptcp_for_each_sub\<close> walks, in its order; a subflow pointer is the position in
  this list. \<open>send_head\<close> is \<^verbatim>\<open>tcp_send_head(meta_sk)\<close>, the head of
  \<open>reinject_queue\<close> is \<^verbatim>\<open>skb_peek(&mpcb->reinject_queue)\<close>.
\<close>

record mptcp_cb =
  subflows :: "tcp_sock list"
  reinject_queue :: "sk_buff list"
  send_head :: "sk_buff option"
  infinite_mapping_snd :: bool
  send_infinite_mapping :: bool
  dfin_path_index :: u8
  sk_shutdown :: u8
  meta_curr_tdn :: u8

definition RCV_SHUTDOWN :: u8 where
  "RCV_SHUTDOWN = 1"

text \<open>
  Modelled from the spec: the header macro \<^verbatim>\<open>before(seq1, seq2)\<close> is not in the file.
  The next-write cursor has not reached the window boundary when the 32-bit difference,
  read as a signed number, is negative.
\<close>

definition before :: "u32 \<Rightarrow> u32 \<Rightarrow> bool" where
  "before seq1 seq2 = (sint (seq1 - seq2) < 0)"

text \<open>
  Modelled from the spec: the header function \<^verbatim>\<open>mptcp_pi_to_flag\<close> is not in the file.
  The carried-path set is a fixed-capacity set keyed by path index: path index \<open>i\<close>
  is bit \<open>i - 1\<close> of the 32-bit \<open>path_mask\<close>. Path indices start at 1.
\<close>

definition mptcp_pi_to_flag :: "u8 \<Rightarrow> u32" where
  "mptcp_pi_to_flag path_idx = push_bit (unat path_idx - 1) 1"

text \<open>
  Modelled from the spec: the header macro \<^verbatim>\<open>DIV_ROUND_UP(n, d)\<close> is not in the file.
  It is the quotient rounded up, computed as \<open>(n + d - 1) / d\<close> in unsigned 32-bit
  arithmetic. The callers guard the division by zero.
\<close>

definition DIV_ROUND_UP :: "u32 \<Rightarrow> u32 \<Rightarrow> u32" where
  "DIV_ROUND_UP n d = (n + d - 1) div d"

section \<open>Path eligibility\<close>

text \<open>
  \<^verbatim>\<open>mptcp_tdm_is_available\<close>. The code reads \<^verbatim>\<open>meta_sk\<close> only for the text of the
  warning that the first test prints, so the model leaves this argument (and the warning)
  out. The comparison of \<^verbatim>\<open>curr_tdn\<close> with \<^verbatim>\<open>path_index - 1\<close> is made on
  \<^verbatim>\<open>int\<close> after integer promotion.
\<close>

definition mptcp_tdm_is_available ::
  "tcp_sock \<Rightarrow> sk_buff option \<Rightarrow> bool \<Rightarrow> bool \<Rightarrow> bool" where
  "mptcp_tdm_is_available tp skb zero_wnd_test cwnd_test =
    (if uint (curr_tdn tp) \<noteq> uint (path_index tp) - 1 then False
     else if \<not> can_send tp then False
     else if pre_established tp then False
     else if pf tp then False
     else if icsk_ca_state tp = TCP_CA_Loss \<and> \<not> is_reno tp then False
     else if icsk_ca_state tp = TCP_CA_Loss \<and> snd_una tp \<noteq> high_seq tp then False
     else if \<not> fully_established tp \<and>
             (case skb of None \<Rightarrow> False
              | Some s \<Rightarrow> second_packet tp \<and> last_end_data_seq tp \<noteq> skb_seq s)
       then False
     else if cwnd_test \<and> snd_cwnd tp \<le> packets_in_flight tp then False
     else if cwnd_test \<and>
             (snd_cwnd tp - packets_in_flight tp) * mss_cache tp < write_seq tp - snd_nxt tp
       then False
     else if zero_wnd_test \<and> \<not> before (write_seq tp) (wnd_end tp) then False
     else True)"

text \<open>\<^verbatim>\<open>mptcp_tdm_dont_reinject_skb\<close>: has the segment already been sent on this subflow?\<close>

definition mptcp_tdm_dont_reinject_skb :: "tcp_sock \<Rightarrow> sk_buff option \<Rightarrow> bool" where
  "mptcp_tdm_dont_reinject_skb tp skb =
    (case skb of None \<Rightarrow> False
     | Some s \<Rightarrow> mptcp_pi_to_flag (path_index tp) AND path_mask s \<noteq> 0)"

section \<open>Path choice for a given segment\<close>

text \<open>
  The first loop of \<^verbatim>\<open>tdm_get_available_subflow\<close>. The local \<^verbatim>\<open>sk\<close> is assigned in
  every iteration; the result says whether the loop returned, and the value of \<^verbatim>\<open>sk\<close>.
\<close>

fun tdm_dfin_loop ::
  "mptcp_cb \<Rightarrow> sk_buff option \<Rightarrow> bool \<Rightarrow> tcp_sock list \<Rightarrow> nat \<Rightarrow> nat option
    \<Rightarrow> bool \<times> nat option" where
  "tdm_dfin_loop meta_sk skb zero_wnd_test [] i sk = (False, sk)"
| "tdm_dfin_loop meta_sk skb zero_wnd_test (tp # tps) i sk =
    (if path_index tp = dfin_path_index meta_sk \<and>
        mptcp_tdm_is_available tp skb zero_wnd_test True
     then (True, Some i)
     else tdm_dfin_loop meta_sk skb zero_wnd_test tps (Suc i) (Some i))"

text \<open>
  The second loop: the locals \<^verbatim>\<open>sk\<close>, \<^verbatim>\<open>bestsk\<close> and \<^verbatim>\<open>backupsk\<close>, in this order.
\<close>

fun tdm_best_loop ::
  "sk_buff option \<Rightarrow> bool \<Rightarrow> tcp_sock list \<Rightarrow> nat
    \<Rightarrow> nat option \<times> nat option \<times> nat option \<Rightarrow> nat option \<times> nat option \<times> nat option" where
  "tdm_best_loop skb zero_wnd_test [] i loc = loc"
| "tdm_best_loop skb zero_wnd_test (tp # tps) i (sk, bestsk, backupsk) =
    (if \<not> mptcp_tdm_is_available tp skb zero_wnd_test True
     then tdm_best_loop skb zero_wnd_test tps (Suc i) (Some i, bestsk, backupsk)
     else if mptcp_tdm_dont_reinject_skb tp skb
     then tdm_best_loop skb zero_wnd_test tps (Suc i) (Some i, bestsk, Some i)
     else tdm_best_loop skb zero_wnd_test tps (Suc i) (Some i, Some i, backupsk))"

text \<open>
  \<^verbatim>\<open>tdm_get_available_subflow\<close>: the returned subflow, and the segment after the call
  (its \<open>path_mask\<close> may have been cleared).
\<close>

definition tdm_get_available_subflow ::
  "mptcp_cb \<Rightarrow> sk_buff option \<Rightarrow> bool \<Rightarrow> nat option \<times> sk_buff option" where
  "tdm_get_available_subflow meta_sk skb zero_wnd_test =
    (let r1 = (if sk_shutdown meta_sk AND RCV_SHUTDOWN \<noteq> 0 \<and>
                  (case skb of None \<Rightarrow> False | Some s \<Rightarrow> data_fin s)
               then tdm_dfin_loop meta_sk skb zero_wnd_test (subflows meta_sk) 0 None
               else (False, None))
     in if fst r1 then (snd r1, skb)
        else (case tdm_best_loop skb zero_wnd_test (subflows meta_sk) 0
                     (snd r1, None, None) of
                (sk, bestsk, backupsk) \<Rightarrow>
                  (case bestsk of
                     Some b \<Rightarrow> (Some b, skb)
                   | None \<Rightarrow>
                      (case backupsk of
                         Some b \<Rightarrow> (Some b, map_option (\<lambda>s. s\<lparr>path_mask := 0\<rparr>) skb)
                       | None \<Rightarrow> (sk, skb)))))"

section \<open>The next segment and its path\<close>

text \<open>
  \<^verbatim>\<open>__mptcp_tdm_next_segment\<close> (an Isabelle name cannot start with an underscore): the
  segment and the value written to \<^verbatim>\<open>*reinject\<close>.
\<close>

definition dunder_mptcp_tdm_next_segment :: "mptcp_cb \<Rightarrow> sk_buff option \<times> int" where
  "dunder_mptcp_tdm_next_segment meta_sk =
    (if infinite_mapping_snd meta_sk \<or> send_infinite_mapping meta_sk
     then (send_head meta_sk, 0)
     else (case reinject_queue meta_sk of
             s # _ \<Rightarrow> (Some s, 1)
           | [] \<Rightarrow> (send_head meta_sk, 0)))"

text \<open>
  The locals of \<^verbatim>\<open>mptcp_tdm_next_segment\<close> that live across the \<^verbatim>\<open>retry\<close> label:
  \<^verbatim>\<open>iter\<close> and \<^verbatim>\<open>full_subs\<close> are of type \<^verbatim>\<open>unsigned char\<close>.
\<close>

record tdm_locals =
  l_iter :: u8
  l_full_subs :: u8
  l_choose_sk :: "nat option"
  l_split :: c_int

text \<open>
  The scan loop under the \<^verbatim>\<open>retry\<close> label, with the two module parameters
  \<^verbatim>\<open>num_segments\<close> and \<^verbatim>\<open>cwnd_limited\<close> as arguments. The first component of the
  result says whether the loop was left by \<^verbatim>\<open>goto found\<close>.
\<close>

fun tdm_scan ::
  "c_int \<Rightarrow> bool \<Rightarrow> sk_buff \<Rightarrow> tcp_sock list \<Rightarrow> nat \<Rightarrow> tdm_locals
    \<Rightarrow> bool \<times> tdm_locals" where
  "tdm_scan num_segments cwnd_limited skb [] i loc = (False, loc)"
| "tdm_scan num_segments cwnd_limited skb (tp # tps) i loc =
    (if \<not> mptcp_tdm_is_available tp (Some skb) False cwnd_limited
     then tdm_scan num_segments cwnd_limited skb tps (Suc i) loc
     else
       let loc1 = loc\<lparr>l_iter := l_iter loc + 1\<rparr> in
       if 0 < sint (quota tp) \<and> sint (quota tp) < sint num_segments
       then (True, loc1\<lparr>l_split := num_segments - quota tp, l_choose_sk := Some i\<rparr>)
       else
         let loc2 = (if quota tp = 0
                     then loc1\<lparr>l_split := num_segments, l_choose_sk := Some i\<rparr>
                     else loc1);
             loc3 = (if sint num_segments \<le> sint (quota tp)
                     then loc2\<lparr>l_full_subs := l_full_subs loc2 + 1\<rparr>
                     else loc2)
         in tdm_scan num_segments cwnd_limited skb tps (Suc i) loc3)"

text \<open>The loop that restarts the round: the quota of every available subflow becomes 0.\<close>

definition tdm_reset :: "bool \<Rightarrow> sk_buff \<Rightarrow> tcp_sock list \<Rightarrow> tcp_sock list" where
  "tdm_reset cwnd_limited skb tps =
    map (\<lambda>tp. if \<not> mptcp_tdm_is_available tp (Some skb) False cwnd_limited
               then tp else tp\<lparr>quota := 0\<rparr>) tps"

text \<open>
  The code between the \<^verbatim>\<open>retry\<close> and the \<^verbatim>\<open>found\<close> labels. \<^verbatim>\<open>goto retry\<close> is the
  recursive call; a run that never leaves the loop has the value \<open>None\<close>. The last
  argument counts the passes through the \<^verbatim>\<open>retry\<close> label (it is not a variable of the
  code) and is returned with the subflows and the locals.
\<close>

partial_function (option) tdm_retry ::
  "c_int \<Rightarrow> bool \<Rightarrow> sk_buff \<Rightarrow> tcp_sock list \<Rightarrow> tdm_locals \<Rightarrow> nat
    \<Rightarrow> (tcp_sock list \<times> tdm_locals \<times> nat) option" where
  "tdm_retry num_segments cwnd_limited skb tps loc passes =
    (let r = tdm_scan num_segments cwnd_limited skb tps 0 loc in
     if fst r then Some (tps, snd r, Suc passes)
     else if l_iter (snd r) \<noteq> 0 \<and> l_iter (snd r) = l_full_subs (snd r)
     then tdm_retry num_segments cwnd_limited skb
            (tdm_reset cwnd_limited skb tps) (snd r) (Suc passes)
     else Some (tps, snd r, Suc passes))"

declare tdm_retry.simps [code]

text \<open>
  What \<^verbatim>\<open>mptcp_tdm_next_segment\<close> hands back: the returned segment and the values of
  the three output parameters. \<^verbatim>\<open>*subsk\<close> is not written on every path, so the caller's
  value is an argument of the model.
\<close>

record tdm_decision =
  d_skb :: "sk_buff option"
  d_reinject :: int
  d_subsk :: "nat option"
  d_limit :: u32

datatype tdm_fault = Divide_Error

text \<open>
  The code under the \<^verbatim>\<open>found\<close> label. The division of \<^verbatim>\<open>DIV_ROUND_UP\<close> by an
  \<^verbatim>\<open>mss_now\<close> of 0 is a fault.
\<close>

definition tdm_found ::
  "sk_buff \<Rightarrow> tcp_sock list \<Rightarrow> nat option \<Rightarrow> c_int \<Rightarrow> nat option
    \<Rightarrow> tdm_fault + tcp_sock list \<times> tdm_decision" where
  "tdm_found skb tps choose_sk split subsk0 =
    (case choose_sk of
       None \<Rightarrow> Inr (tps, \<lparr>d_skb = None, d_reinject = 0, d_subsk = subsk0, d_limit = 0\<rparr>)
     | Some i \<Rightarrow>
        let choose_tp = tps ! i in
        if \<not> mptcp_tdm_is_available choose_tp (Some skb) False True
        then Inr (tps, \<lparr>d_skb = None, d_reinject = 0, d_subsk = subsk0, d_limit = 0\<rparr>)
        else
          let mss_now = current_mss choose_tp;
              dec = \<lparr>d_skb = Some skb, d_reinject = 0, d_subsk = Some i,
                     d_limit = split * mss_now\<rparr>
          in if mss_now < skb_len skb
             then (if mss_now = 0 then Inl Divide_Error
                   else Inr (tps[i := choose_tp\<lparr>quota := quota choose_tp
                                        + DIV_ROUND_UP (skb_len skb) mss_now\<rparr>], dec))
             else Inr (tps[i := choose_tp\<lparr>quota := quota choose_tp + 1\<rparr>], dec))"

text \<open>
  \<^verbatim>\<open>mptcp_tdm_next_segment\<close>, with the module parameters and the caller's \<^verbatim>\<open>*subsk\<close>
  as arguments. The result is \<open>None\<close> when the call does not return; otherwise the fault,
  or the connection after the call (the quotas, and the \<open>path_mask\<close> of the head of
  the reinject queue, may have changed) with the decision.
\<close>

definition mptcp_tdm_next_segment ::
  "c_int \<Rightarrow> bool \<Rightarrow> mptcp_cb \<Rightarrow> nat option \<Rightarrow> (tdm_fault + mptcp_cb \<times> tdm_decision) option" where
  "mptcp_tdm_next_segment num_segments cwnd_limited meta_sk subsk0 =
    (case dunder_mptcp_tdm_next_segment meta_sk of
       (None, reinject) \<Rightarrow>
         Some (Inr (meta_sk, \<lparr>d_skb = None, d_reinject = reinject, d_subsk = subsk0,
                              d_limit = 0\<rparr>))
     | (Some skb, reinject) \<Rightarrow>
         if reinject \<noteq> 0 then
           (case tdm_get_available_subflow meta_sk (Some skb) False of
              (sk, skb') \<Rightarrow>
                let meta_sk' = meta_sk\<lparr>reinject_queue :=
                                 (case skb' of None \<Rightarrow> reinject_queue meta_sk
                                  | Some s' \<Rightarrow> s' # tl (reinject_queue meta_sk))\<rparr>
                in Some (Inr (meta_sk',
                      \<lparr>d_skb = (if sk = None then None else skb'), d_reinject = reinject,
                       d_subsk = sk, d_limit = 0\<rparr>)))
         else
           (case tdm_retry num_segments cwnd_limited skb (subflows meta_sk)
                   \<lparr>l_iter = 0, l_full_subs = 0, l_choose_sk = None, l_split = num_segments\<rparr> 0 of
              None \<Rightarrow> None
            | Some (tps, loc, passes) \<Rightarrow>
                Some (map_sum id (\<lambda>(tps', dec). (meta_sk\<lparr>subflows := tps'\<rparr>, dec))
                       (tdm_found skb tps (l_choose_sk loc) (l_split loc) subsk0))))"

text \<open>
  The module parameters \<^verbatim>\<open>num_segments\<close> (an \<^verbatim>\<open>int\<close>) and \<^verbatim>\<open>cwnd_limited\<close> are
  declared with \<^verbatim>\<open>module_param(..., 0644)\<close>, without a setter of the file's own: they
  are arguments of the model, over all values of their types. These are the initial
  values.
\<close>

definition num_segments_default :: c_int where
  "num_segments_default = 10000"

definition cwnd_limited_default :: bool where
  "cwnd_limited_default = True"

section \<open>Example states\<close>

text \<open>
  A subflow on which data can be sent (path index 1, expected ordinal 0, an open
  congestion window of 10 segments, nothing in flight), a segment of 1000 bytes, and a
  connection over a given list of subflows with this segment at the head of its send
  queue and an empty reinject queue.
\<close>

definition ex_sub :: tcp_sock where
  "ex_sub = \<lparr>curr_tdn = 0, path_index = 1, can_send = True, pre_established = False,
     pf = False, icsk_ca_state = TCP_CA_Open, is_reno = False, snd_una = 0, high_seq = 0,
     fully_established = True, second_packet = False, last_end_data_seq = 0,
     packets_in_flight = 0, snd_cwnd = 10, mss_cache = 1460, write_seq = 0, snd_nxt = 0,
     wnd_end = 65535, current_mss = 1460, quota = 0\<rparr>"

definition ex_skb :: sk_buff where
  "ex_skb = \<lparr>skb_seq = 0, skb_len = 1000, path_mask = 0, data_fin = False\<rparr>"

definition ex_meta :: "tcp_sock list \<Rightarrow> mptcp_cb" where
  "ex_meta tps = \<lparr>subflows = tps, reinject_queue = [], send_head = Some ex_skb,
     infinite_mapping_snd = False, send_infinite_mapping = False, dfin_path_index = 1,
     sk_shutdown = 0, meta_curr_tdn = 0\<rparr>"

text \<open>
  A second available subflow (path index 2), the example segment as a DATA_FIN, and
  the example subflow with an exhausted receive window.
\<close>

definition ex_sub2 :: tcp_sock where
  "ex_sub2 = ex_sub\<lparr>curr_tdn := 1, path_index := 2\<rparr>"

definition ex_fin :: sk_buff where
  "ex_fin = ex_skb\<lparr>data_fin := True\<rparr>"

definition ex_zero_wnd :: tcp_sock where
  "ex_zero_wnd = ex_sub\<lparr>write_seq := 70000, snd_nxt := 70000\<rparr>"

section \<open>Eligibility and the rotation ordinal\<close>

text \<open>
  C1, as stated, fails: the subflow \<open>ex_sub\<close> is available, and the same subflow with
  only \<open>curr_tdn\<close> changed, so that it differs from \<open>path_index - 1\<close>, is not.
\<close>

theorem is_available_ordinal_counterexample:
  "mptcp_tdm_is_available ex_sub (Some ex_skb) True True \<and>
   \<not> mptcp_tdm_is_available (ex_sub\<lparr>curr_tdn := 1\<rparr>) (Some ex_skb) True True"
  by (simp add: mptcp_tdm_is_available_def ex_sub_def ex_skb_def before_def)

text \<open>
  C1, amended: the ordinal test is a gate. Whenever \<open>curr_tdn\<close> differs from
  \<open>path_index - 1\<close>, \<open>mptcp_tdm_is_available\<close> returns false, whatever the other fields
  of the subflow, the segment and the two flags are.
\<close>

theorem is_available_rejects_ordinal_mismatch:
  "uint (curr_tdn tp) \<noteq> uint (path_index tp) - 1
    \<Longrightarrow> \<not> mptcp_tdm_is_available tp skb zero_wnd_test cwnd_test"
  by (simp add: mptcp_tdm_is_available_def)

theorem is_available_rejects_ordinal_mismatch_witness:
  "uint (curr_tdn (ex_sub\<lparr>curr_tdn := 1\<rparr>)) \<noteq> uint (path_index (ex_sub\<lparr>curr_tdn := 1\<rparr>)) - 1 \<and>
   \<not> mptcp_tdm_is_available (ex_sub\<lparr>curr_tdn := 1\<rparr>) None False False"
  using is_available_rejects_ordinal_mismatch [of "ex_sub\<lparr>curr_tdn := 1\<rparr>" None False False]
  by (simp add: ex_sub_def)

section \<open>Path choice for a given segment: the DATA_FIN shortcut\<close>

lemma tdm_dfin_loop_first:
  "k < length tps \<Longrightarrow>
   path_index (tps ! k) = dfin_path_index meta \<and> mptcp_tdm_is_available (tps ! k) skb z True \<Longrightarrow>
   \<forall>j<k. \<not> (path_index (tps ! j) = dfin_path_index meta \<and>
            mptcp_tdm_is_available (tps ! j) skb z True) \<Longrightarrow>
   tdm_dfin_loop meta skb z tps i sk = (True, Some (i + k))"
proof (induction tps arbitrary: i k sk)
  case Nil
  then show ?case by simp
next
  case (Cons tp tps)
  show ?case
  proof (cases k)
    case 0
    with Cons.prems show ?thesis by simp
  next
    case (Suc k')
    from Cons.prems(3) Suc
    have first: "\<not> (path_index tp = dfin_path_index meta \<and> mptcp_tdm_is_available tp skb z True)"
      by (metis nth_Cons_0 zero_less_Suc)
    from Cons.prems(3) Suc
    have rest: "\<forall>j<k'. \<not> (path_index (tps ! j) = dfin_path_index meta \<and>
                   mptcp_tdm_is_available (tps ! j) skb z True)"
      by (metis Suc_less_eq nth_Cons_Suc)
    from Cons.prems(1,2) Suc have "k' < length tps"
      and "path_index (tps ! k') = dfin_path_index meta \<and>
           mptcp_tdm_is_available (tps ! k') skb z True"
      by simp_all
    from Cons.IH [OF this rest, of "Suc i" "Some i"] first Suc show ?thesis by auto
  qed
qed

lemma tdm_dfin_loop_none:
  "\<forall>tp\<in>set tps. \<not> (path_index tp = dfin_path_index meta \<and>
       mptcp_tdm_is_available tp skb z True) \<Longrightarrow>
   fst (tdm_dfin_loop meta skb z tps i sk) = False"
  by (induction tps arbitrary: i sk) auto

lemma tdm_best_loop_init_sk:
  "tps \<noteq> [] \<Longrightarrow>
   tdm_best_loop skb z tps i (sk, b, bk) = tdm_best_loop skb z tps i (sk', b, bk)"
  by (cases tps) auto

text \<open>
  C5, as stated, fails: the peer has closed (\<open>RCV_SHUTDOWN\<close>), path index 1 is the
  DATA_FIN path, the subflow with path index 1 is not available (\<open>pf\<close> is set) and the
  subflow with path index 2 is. For the DATA_FIN segment the call returns the second
  subflow (position 1), a path other than the designated one.
\<close>

theorem get_available_subflow_data_fin_counterexample:
  "tdm_get_available_subflow ((ex_meta [ex_sub\<lparr>pf := True\<rparr>, ex_sub2])\<lparr>sk_shutdown := 1\<rparr>)
     (Some ex_fin) False = (Some 1, Some ex_fin) \<and>
   path_index ex_sub2 \<noteq> dfin_path_index ((ex_meta [ex_sub\<lparr>pf := True\<rparr>, ex_sub2])\<lparr>sk_shutdown := 1\<rparr>)"
  by (simp add: tdm_get_available_subflow_def mptcp_tdm_is_available_def ex_sub_def ex_sub2_def
      ex_skb_def ex_fin_def ex_meta_def RCV_SHUTDOWN_def mptcp_tdm_dont_reinject_skb_def
      mptcp_pi_to_flag_def)

text \<open>
  C5, amended: for a DATA_FIN segment on a connection whose peer has closed, the call
  returns the subflow with the DATA_FIN path index whenever that subflow is available
  (the first such one in list order), and leaves the segment as it is. When no subflow
  with that path index is available, the call goes on to the ordinary scan of all
  subflows: its result is the one of the same call without \<open>RCV_SHUTDOWN\<close>.
\<close>

theorem get_available_subflow_data_fin:
  assumes "sk_shutdown meta AND RCV_SHUTDOWN \<noteq> 0" and "data_fin s"
  shows "(\<forall>i. i < length (subflows meta) \<and>
            path_index (subflows meta ! i) = dfin_path_index meta \<and>
            mptcp_tdm_is_available (subflows meta ! i) (Some s) z True \<and>
            (\<forall>j<i. \<not> (path_index (subflows meta ! j) = dfin_path_index meta \<and>
                        mptcp_tdm_is_available (subflows meta ! j) (Some s) z True))
          \<longrightarrow> tdm_get_available_subflow meta (Some s) z = (Some i, Some s)) \<and>
         ((\<forall>tp\<in>set (subflows meta). \<not> (path_index tp = dfin_path_index meta \<and>
                        mptcp_tdm_is_available tp (Some s) z True))
          \<longrightarrow> tdm_get_available_subflow meta (Some s) z =
                tdm_get_available_subflow (meta\<lparr>sk_shutdown := 0\<rparr>) (Some s) z)"
proof (intro conjI allI impI)
  fix i
  assume "i < length (subflows meta) \<and>
            path_index (subflows meta ! i) = dfin_path_index meta \<and>
            mptcp_tdm_is_available (subflows meta ! i) (Some s) z True \<and>
            (\<forall>j<i. \<not> (path_index (subflows meta ! j) = dfin_path_index meta \<and>
                        mptcp_tdm_is_available (subflows meta ! j) (Some s) z True))"
  then have "tdm_dfin_loop meta (Some s) z (subflows meta) 0 None = (True, Some (0 + i))"
    by (intro tdm_dfin_loop_first) auto
  with assms show "tdm_get_available_subflow meta (Some s) z = (Some i, Some s)"
    by (simp add: tdm_get_available_subflow_def)
next
  assume "\<forall>tp\<in>set (subflows meta). \<not> (path_index tp = dfin_path_index meta \<and>
                        mptcp_tdm_is_available tp (Some s) z True)"
  then have f: "fst (tdm_dfin_loop meta (Some s) z (subflows meta) 0 None) = False"
    by (rule tdm_dfin_loop_none)
  show "tdm_get_available_subflow meta (Some s) z =
                tdm_get_available_subflow (meta\<lparr>sk_shutdown := 0\<rparr>) (Some s) z"
  proof (cases "subflows meta = []")
    case True
    with assms show ?thesis by (simp add: tdm_get_available_subflow_def)
  next
    case False
    from tdm_best_loop_init_sk [OF False]
    have "tdm_best_loop (Some s) z (subflows meta) 0
            (snd (tdm_dfin_loop meta (Some s) z (subflows meta) 0 None), None, None) =
          tdm_best_loop (Some s) z (subflows meta) 0 (None, None, None)" .
    with assms f show ?thesis by (simp add: tdm_get_available_subflow_def)
  qed
qed

theorem get_available_subflow_data_fin_witness:
  "sk_shutdown ((ex_meta [ex_sub2, ex_sub])\<lparr>sk_shutdown := 1\<rparr>) AND RCV_SHUTDOWN \<noteq> 0 \<and>
   data_fin ex_fin \<and>
   path_index ex_sub = dfin_path_index ((ex_meta [ex_sub2, ex_sub])\<lparr>sk_shutdown := 1\<rparr>) \<and>
   mptcp_tdm_is_available ex_sub (Some ex_fin) False True \<and>
   mptcp_tdm_is_available ex_sub2 (Some ex_fin) False True \<and>
   path_index ex_sub2 \<noteq> dfin_path_index ((ex_meta [ex_sub2, ex_sub])\<lparr>sk_shutdown := 1\<rparr>) \<and>
   tdm_get_available_subflow ((ex_meta [ex_sub2, ex_sub])\<lparr>sk_shutdown := 1\<rparr>) (Some ex_fin) False
     = (Some 1, Some ex_fin)"
proof -
  let ?m = "(ex_meta [ex_sub2, ex_sub])\<lparr>sk_shutdown := 1\<rparr>"
  have h1: "sk_shutdown ?m AND RCV_SHUTDOWN \<noteq> 0"
    by (simp add: ex_meta_def RCV_SHUTDOWN_def)
  have h2: "data_fin ex_fin"
    by (simp add: ex_fin_def)
  have a1: "mptcp_tdm_is_available ex_sub (Some ex_fin) False True"
    and a2: "mptcp_tdm_is_available ex_sub2 (Some ex_fin) False True"
    by (simp_all add: mptcp_tdm_is_available_def ex_sub_def ex_sub2_def)
  have p1: "path_index ex_sub = dfin_path_index ?m"
    and p2: "path_index ex_sub2 \<noteq> dfin_path_index ?m"
    by (simp_all add: ex_sub_def ex_sub2_def ex_meta_def)
  have "1 < length (subflows ?m) \<and>
        path_index (subflows ?m ! 1) = dfin_path_index ?m \<and>
        mptcp_tdm_is_available (subflows ?m ! 1) (Some ex_fin) False True \<and>
        (\<forall>j<1. \<not> (path_index (subflows ?m ! j) = dfin_path_index ?m \<and>
                    mptcp_tdm_is_available (subflows ?m ! j) (Some ex_fin) False True))"
    using a1 p1 p2 by (simp add: ex_meta_def)
  with get_available_subflow_data_fin [OF h1 h2, of False]
  have "tdm_get_available_subflow ?m (Some ex_fin) False = (Some 1, Some ex_fin)"
    by blast
  with h1 h2 a1 a2 p1 p2 show ?thesis by simp
qed

section \<open>Path choice for a given segment: the ordinary scan\<close>

lemma tdm_best_loop_best_keep:
  "\<forall>tp\<in>set tps. \<not> (mptcp_tdm_is_available tp skb z True \<and> \<not> mptcp_tdm_dont_reinject_skb tp skb) \<Longrightarrow>
   fst (snd (tdm_best_loop skb z tps i (sk, b, bk))) = b"
  by (induction tps arbitrary: i sk b bk) auto

lemma tdm_best_loop_backup_keep:
  "\<forall>tp\<in>set tps. \<not> (mptcp_tdm_is_available tp skb z True \<and> mptcp_tdm_dont_reinject_skb tp skb) \<Longrightarrow>
   snd (snd (tdm_best_loop skb z tps i (sk, b, bk))) = bk"
  by (induction tps arbitrary: i sk b bk) auto

lemma tdm_best_loop_last_fresh:
  "k < length tps \<Longrightarrow>
   mptcp_tdm_is_available (tps ! k) skb z True \<and> \<not> mptcp_tdm_dont_reinject_skb (tps ! k) skb \<Longrightarrow>
   \<forall>j. k < j \<and> j < length tps \<longrightarrow>
       \<not> (mptcp_tdm_is_available (tps ! j) skb z True \<and> \<not> mptcp_tdm_dont_reinject_skb (tps ! j) skb) \<Longrightarrow>
   fst (snd (tdm_best_loop skb z tps i (sk, b, bk))) = Some (i + k)"
proof (induction tps arbitrary: i k sk b bk)
  case Nil
  then show ?case by simp
next
  case (Cons tp tps)
  show ?case
  proof (cases k)
    case 0
    from Cons.prems(3) 0
    have rest: "\<forall>x\<in>set tps. \<not> (mptcp_tdm_is_available x skb z True \<and> \<not> mptcp_tdm_dont_reinject_skb x skb)"
      by (metis Suc_less_eq in_set_conv_nth length_Cons nth_Cons_Suc zero_less_Suc)
    from Cons.prems(2) 0 tdm_best_loop_best_keep [OF rest] show ?thesis by simp
  next
    case (Suc k')
    from Cons.prems Suc have a: "k' < length tps"
      and b: "mptcp_tdm_is_available (tps ! k') skb z True \<and> \<not> mptcp_tdm_dont_reinject_skb (tps ! k') skb"
      by simp_all
    from Cons.prems(3) Suc
    have c: "\<forall>j. k' < j \<and> j < length tps \<longrightarrow>
       \<not> (mptcp_tdm_is_available (tps ! j) skb z True \<and> \<not> mptcp_tdm_dont_reinject_skb (tps ! j) skb)"
      by (metis Suc_less_eq length_Cons nth_Cons_Suc)
    from Cons.IH [OF a b c] Suc show ?thesis by simp
  qed
qed

lemma tdm_best_loop_last_carried:
  "k < length tps \<Longrightarrow>
   mptcp_tdm_is_available (tps ! k) skb z True \<and> mptcp_tdm_dont_reinject_skb (tps ! k) skb \<Longrightarrow>
   \<forall>j. k < j \<and> j < length tps \<longrightarrow>
       \<not> (mptcp_tdm_is_available (tps ! j) skb z True \<and> mptcp_tdm_dont_reinject_skb (tps ! j) skb) \<Longrightarrow>
   snd (snd (tdm_best_loop skb z tps i (sk, b, bk))) = Some (i + k)"
proof (induction tps arbitrary: i k sk b bk)
  case Nil
  then show ?case by simp
next
  case (Cons tp tps)
  show ?case
  proof (cases k)
    case 0
    from Cons.prems(3) 0
    have rest: "\<forall>x\<in>set tps. \<not> (mptcp_tdm_is_available x skb z True \<and> mptcp_tdm_dont_reinject_skb x skb)"
      by (metis Suc_less_eq in_set_conv_nth length_Cons nth_Cons_Suc zero_less_Suc)
    from Cons.prems(2) 0 tdm_best_loop_backup_keep [OF rest] show ?thesis by simp
  next
    case (Suc k')
    from Cons.prems Suc have a: "k' < length tps"
      and b: "mptcp_tdm_is_available (tps ! k') skb z True \<and> mptcp_tdm_dont_reinject_skb (tps ! k') skb"
      by simp_all
    from Cons.prems(3) Suc
    have c: "\<forall>j. k' < j \<and> j < length tps \<longrightarrow>
       \<not> (mptcp_tdm_is_available (tps ! j) skb z True \<and> mptcp_tdm_dont_reinject_skb (tps ! j) skb)"
      by (metis Suc_less_eq length_Cons nth_Cons_Suc)
    from Cons.IH [OF a b c] Suc show ?thesis by simp
  qed
qed

text \<open>
  The ordinary scan, when some subflow is available: the last available subflow that
  has not carried the segment is returned and the segment is left as it is; when every
  available subflow has carried it, the last available one is returned and the
  \<open>path_mask\<close> of the segment is cleared.
\<close>

lemma get_available_subflow_scan:
  assumes plain: "\<not> (sk_shutdown meta AND RCV_SHUTDOWN \<noteq> 0 \<and> data_fin s)"
    and k: "k < length (subflows meta)"
  shows "(mptcp_tdm_is_available (subflows meta ! k) (Some s) z True \<and>
          \<not> mptcp_tdm_dont_reinject_skb (subflows meta ! k) (Some s) \<and>
          (\<forall>j. k < j \<and> j < length (subflows meta) \<longrightarrow>
             \<not> (mptcp_tdm_is_available (subflows meta ! j) (Some s) z True \<and>
                \<not> mptcp_tdm_dont_reinject_skb (subflows meta ! j) (Some s)))
          \<longrightarrow> tdm_get_available_subflow meta (Some s) z = (Some k, Some s)) \<and>
         ((\<forall>tp\<in>set (subflows meta). mptcp_tdm_is_available tp (Some s) z True \<longrightarrow>
              mptcp_tdm_dont_reinject_skb tp (Some s)) \<and>
          mptcp_tdm_is_available (subflows meta ! k) (Some s) z True \<and>
          (\<forall>j. k < j \<and> j < length (subflows meta) \<longrightarrow>
             \<not> mptcp_tdm_is_available (subflows meta ! j) (Some s) z True)
          \<longrightarrow> tdm_get_available_subflow meta (Some s) z = (Some k, Some (s\<lparr>path_mask := 0\<rparr>)))"
proof (intro conjI impI)
  let ?r = "tdm_best_loop (Some s) z (subflows meta) 0 (None, None, None)"
  assume a: "mptcp_tdm_is_available (subflows meta ! k) (Some s) z True \<and>
          \<not> mptcp_tdm_dont_reinject_skb (subflows meta ! k) (Some s) \<and>
          (\<forall>j. k < j \<and> j < length (subflows meta) \<longrightarrow>
             \<not> (mptcp_tdm_is_available (subflows meta ! j) (Some s) z True \<and>
                \<not> mptcp_tdm_dont_reinject_skb (subflows meta ! j) (Some s)))"
  then have "fst (snd ?r) = Some (0 + k)"
    by (intro tdm_best_loop_last_fresh [OF k]) blast+
  with plain show "tdm_get_available_subflow meta (Some s) z = (Some k, Some s)"
    by (cases ?r) (auto simp: tdm_get_available_subflow_def)
next
  let ?r = "tdm_best_loop (Some s) z (subflows meta) 0 (None, None, None)"
  assume a: "(\<forall>tp\<in>set (subflows meta). mptcp_tdm_is_available tp (Some s) z True \<longrightarrow>
              mptcp_tdm_dont_reinject_skb tp (Some s)) \<and>
          mptcp_tdm_is_available (subflows meta ! k) (Some s) z True \<and>
          (\<forall>j. k < j \<and> j < length (subflows meta) \<longrightarrow>
             \<not> mptcp_tdm_is_available (subflows meta ! j) (Some s) z True)"
  then have "fst (snd ?r) = None"
    by (intro tdm_best_loop_best_keep) blast
  moreover from a k have "snd (snd ?r) = Some (0 + k)"
    by (intro tdm_best_loop_last_carried [OF k]) (auto dest: nth_mem)
  ultimately show "tdm_get_available_subflow meta (Some s) z = (Some k, Some (s\<lparr>path_mask := 0\<rparr>))"
    using plain by (cases ?r) (auto simp: tdm_get_available_subflow_def)
qed

section \<open>Path choice for a given segment: no available subflow\<close>

lemma tdm_best_loop_sk:
  "fst (tdm_best_loop skb z tps i (sk, b, bk)) =
     (if tps = [] then sk else Some (i + length tps - 1))"
  by (induction tps arbitrary: i sk b bk) auto

text \<open>
  The ordinary scan, when no subflow is available: the call returns the last subflow of
  the list, and \<^verbatim>\<open>NULL\<close> only on a connection without subflows.
\<close>

lemma get_available_subflow_none_available:
  assumes plain: "\<not> (sk_shutdown meta AND RCV_SHUTDOWN \<noteq> 0 \<and> data_fin s)"
    and none: "\<forall>tp\<in>set (subflows meta). \<not> mptcp_tdm_is_available tp (Some s) z True"
  shows "tdm_get_available_subflow meta (Some s) z =
     (if subflows meta = [] then None else Some (length (subflows meta) - 1), Some s)"
proof -
  let ?r = "tdm_best_loop (Some s) z (subflows meta) 0 (None, None, None)"
  from none have "fst (snd ?r) = None"
    by (intro tdm_best_loop_best_keep) blast
  moreover from none have "snd (snd ?r) = None"
    by (intro tdm_best_loop_backup_keep) blast
  moreover have "fst ?r = (if subflows meta = [] then None else Some (length (subflows meta) - 1))"
    by (simp add: tdm_best_loop_sk)
  ultimately show ?thesis
    using plain by (cases ?r) (auto simp: tdm_get_available_subflow_def)
qed

text \<open>
  C8, the failing input: a connection whose only subflow is not available (\<open>pf\<close> is
  set). The local \<^verbatim>\<open>sk\<close> still points to the last subflow the loop visited, and the
  call returns it instead of \<^verbatim>\<open>NULL\<close>.
\<close>

theorem get_available_subflow_returns_unavailable:
  "tdm_get_available_subflow (ex_meta [ex_sub\<lparr>pf := True\<rparr>]) (Some ex_skb) False
     = (Some 0, Some ex_skb) \<and>
   \<not> mptcp_tdm_is_available (ex_sub\<lparr>pf := True\<rparr>) (Some ex_skb) False True"
  by (simp add: tdm_get_available_subflow_def mptcp_tdm_is_available_def ex_sub_def ex_skb_def
      ex_meta_def)

section \<open>Segments of the reinject queue\<close>

text \<open>
  C10: whenever the call returns with the reinject flag set, the connection is not in
  fallback mode and the candidate is the head of the reinject queue; the flag is 1, the
  byte limit is 0, no subflow (so no quota) has changed, and the path is the one that
  \<open>tdm_get_available_subflow\<close> returns for this segment with the zero-window test
  disabled. The segment is returned exactly when that path is not \<^verbatim>\<open>NULL\<close>.
\<close>

theorem next_segment_reinject:
  assumes "mptcp_tdm_next_segment num_segments cwnd_limited meta subsk0 = Some (Inr (meta', d))"
    and "d_reinject d \<noteq> 0"
  shows "\<exists>s rest. reinject_queue meta = s # rest \<and>
     \<not> infinite_mapping_snd meta \<and> \<not> send_infinite_mapping meta \<and>
     d_reinject d = 1 \<and> d_limit d = 0 \<and> subflows meta' = subflows meta \<and>
     d_subsk d = fst (tdm_get_available_subflow meta (Some s) False) \<and>
     d_skb d = (if d_subsk d = None then None
                else snd (tdm_get_available_subflow meta (Some s) False))"
  using assms
  by (auto simp: mptcp_tdm_next_segment_def dunder_mptcp_tdm_next_segment_def tdm_found_def
      Let_def split: if_splits option.splits list.splits prod.splits sum.splits)

theorem next_segment_reinject_witness:
  "mptcp_tdm_next_segment 10000 True ((ex_meta [ex_sub\<lparr>quota := 7\<rparr>])\<lparr>reinject_queue := [ex_skb]\<rparr>) None
     = Some (Inr ((ex_meta [ex_sub\<lparr>quota := 7\<rparr>])\<lparr>reinject_queue := [ex_skb]\<rparr>,
         \<lparr>d_skb = Some ex_skb, d_reinject = 1, d_subsk = Some 0, d_limit = 0\<rparr>)) \<and>
   d_limit \<lparr>d_skb = Some ex_skb, d_reinject = 1, d_subsk = Some 0, d_limit = 0\<rparr> = 0 \<and>
   (\<exists>s rest. reinject_queue ((ex_meta [ex_sub\<lparr>quota := 7\<rparr>])\<lparr>reinject_queue := [ex_skb]\<rparr>)
       = s # rest \<and>
     Some (0::nat) = fst (tdm_get_available_subflow
        ((ex_meta [ex_sub\<lparr>quota := 7\<rparr>])\<lparr>reinject_queue := [ex_skb]\<rparr>) (Some s) False))"
proof -
  let ?m = "(ex_meta [ex_sub\<lparr>quota := 7\<rparr>])\<lparr>reinject_queue := [ex_skb]\<rparr>"
  let ?d = "\<lparr>d_skb = Some ex_skb, d_reinject = 1, d_subsk = Some 0, d_limit = 0\<rparr>"
  have run: "mptcp_tdm_next_segment 10000 True ?m None = Some (Inr (?m, ?d))"
    by (simp add: mptcp_tdm_next_segment_def dunder_mptcp_tdm_next_segment_def
        tdm_get_available_subflow_def mptcp_tdm_is_available_def mptcp_tdm_dont_reinject_skb_def
        ex_sub_def ex_skb_def ex_meta_def)
  have flag: "d_reinject ?d \<noteq> 0" by simp
  from next_segment_reinject [OF run flag] run show ?thesis by auto
qed

section \<open>Fallback mode\<close>

text \<open>
  C4, as stated, fails: the connection is in fallback mode, the round size is 3 and its
  only subflow has used its quota of 3. The call reads the quota, restarts the round
  (the quota becomes 0) and counts the segment (the quota becomes 1); the byte limit is
  that of an unused subflow, 3 * 1460.
\<close>

theorem next_segment_fallback_counterexample:
  "mptcp_tdm_next_segment 3 True
      ((ex_meta [ex_sub\<lparr>quota := 3\<rparr>])\<lparr>infinite_mapping_snd := True\<rparr>) None =
     Some (Inr ((ex_meta [ex_sub\<lparr>quota := 1\<rparr>])\<lparr>infinite_mapping_snd := True\<rparr>,
           \<lparr>d_skb = Some ex_skb, d_reinject = 0, d_subsk = Some 0, d_limit = 4380\<rparr>))"
  by (simp add: mptcp_tdm_next_segment_def dunder_mptcp_tdm_next_segment_def tdm_retry.simps
      tdm_reset_def tdm_found_def mptcp_tdm_is_available_def ex_sub_def ex_skb_def ex_meta_def)

text \<open>
  C4, amended: in fallback mode the candidate is the head of the send queue, never the
  head of the reinject queue, and the reinject flag is 0. With an empty send queue the
  call returns no segment and changes nothing. Otherwise the candidate goes through the
  quota-based selection like every segment of the send queue: the call does what it does
  on the same connection out of fallback mode with an empty reinject queue.
\<close>

theorem next_segment_fallback:
  assumes "infinite_mapping_snd meta \<or> send_infinite_mapping meta"
  shows "dunder_mptcp_tdm_next_segment meta = (send_head meta, 0) \<and>
    (send_head meta = None \<longrightarrow> mptcp_tdm_next_segment num_segments cwnd_limited meta subsk0 =
        Some (Inr (meta, \<lparr>d_skb = None, d_reinject = 0, d_subsk = subsk0, d_limit = 0\<rparr>))) \<and>
    mptcp_tdm_next_segment num_segments cwnd_limited meta subsk0 =
      map_option (map_sum id (\<lambda>(m, d). (m\<lparr>reinject_queue := reinject_queue meta,
           infinite_mapping_snd := infinite_mapping_snd meta,
           send_infinite_mapping := send_infinite_mapping meta\<rparr>, d)))
        (mptcp_tdm_next_segment num_segments cwnd_limited
           (meta\<lparr>reinject_queue := [], infinite_mapping_snd := False,
                 send_infinite_mapping := False\<rparr>) subsk0)"
  using assms
  by (auto simp: mptcp_tdm_next_segment_def dunder_mptcp_tdm_next_segment_def sum.map_comp
      comp_def split: option.splits prod.splits sum.splits intro!: sum.map_cong)

theorem next_segment_fallback_witness:
  "infinite_mapping_snd ((ex_meta [ex_sub])\<lparr>infinite_mapping_snd := True, reinject_queue := [ex_fin]\<rparr>) \<and>
   dunder_mptcp_tdm_next_segment
     ((ex_meta [ex_sub])\<lparr>infinite_mapping_snd := True, reinject_queue := [ex_fin]\<rparr>)
     = (Some ex_skb, 0) \<and>
   mptcp_tdm_next_segment 10000 True
     ((ex_meta [ex_sub])\<lparr>infinite_mapping_snd := True, reinject_queue := [ex_fin]\<rparr>) None =
     Some (Inr ((ex_meta [ex_sub\<lparr>quota := 1\<rparr>])\<lparr>infinite_mapping_snd := True,
                   reinject_queue := [ex_fin]\<rparr>,
           \<lparr>d_skb = Some ex_skb, d_reinject = 0, d_subsk = Some 0, d_limit = 14600000\<rparr>))"
proof -
  let ?m = "(ex_meta [ex_sub])\<lparr>infinite_mapping_snd := True, reinject_queue := [ex_fin]\<rparr>"
  have fb: "infinite_mapping_snd ?m \<or> send_infinite_mapping ?m"
    by (simp add: ex_meta_def)
  have plain: "mptcp_tdm_next_segment 10000 True
       (?m\<lparr>reinject_queue := [], infinite_mapping_snd := False, send_infinite_mapping := False\<rparr>)
       None =
     Some (Inr (ex_meta [ex_sub\<lparr>quota := 1\<rparr>],
           \<lparr>d_skb = Some ex_skb, d_reinject = 0, d_subsk = Some 0, d_limit = 14600000\<rparr>))"
    by (simp add: mptcp_tdm_next_segment_def dunder_mptcp_tdm_next_segment_def tdm_retry.simps
        tdm_found_def mptcp_tdm_is_available_def ex_sub_def ex_skb_def ex_meta_def)
  from next_segment_fallback [OF fb, of 10000 True None] plain show ?thesis
    by (simp add: ex_meta_def)
qed

section \<open>The scan loop and the restart of a round\<close>

text \<open>The quota is not read by the availability test.\<close>

lemma is_available_quota [simp]:
  "mptcp_tdm_is_available (tp\<lparr>quota := q\<rparr>) skb z c = mptcp_tdm_is_available tp skb z c"
  by (cases skb) (auto simp add: mptcp_tdm_is_available_def)

lemma ex_last_index:
  assumes "\<exists>x\<in>set xs. P x"
  shows "\<exists>k<length xs. P (xs ! k) \<and> (\<forall>j. k < j \<and> j < length xs \<longrightarrow> \<not> P (xs ! j))"
proof -
  from split_list_last_prop [OF assms] obtain ys x zs
    where xs: "xs = ys @ x # zs" and px: "P x" and zs: "\<forall>z\<in>set zs. \<not> P z" by blast
  have "\<not> P (xs ! j)" if "length ys < j" "j < length xs" for j
  proof -
    from that xs have "xs ! j = zs ! (j - length ys - 1)" "j - length ys - 1 < length zs"
      by (auto simp: nth_append nth_Cons')
    with zs show ?thesis by (metis nth_mem)
  qed
  with xs px show ?thesis
    by (intro exI [of _ "length ys"]) auto
qed

lemma ex_first_index:
  assumes "\<exists>x\<in>set xs. P x"
  shows "\<exists>k<length xs. P (xs ! k) \<and> (\<forall>j<k. \<not> P (xs ! j))"
proof -
  from split_list_first_prop [OF assms] obtain ys x zs
    where xs: "xs = ys @ x # zs" and px: "P x" and ys: "\<forall>y\<in>set ys. \<not> P y" by blast
  have "\<not> P (xs ! j)" if "j < length ys" for j
    using that xs ys by (simp add: nth_append)
  with xs px show ?thesis
    by (intro exI [of _ "length ys"]) auto
qed

lemma tdm_scan_no_partial:
  "\<forall>tp\<in>set tps. \<not> (mptcp_tdm_is_available tp (Some skb) False cl \<and>
       0 < sint (quota tp) \<and> sint (quota tp) < sint R) \<Longrightarrow>
   fst (tdm_scan R cl skb tps i loc) = False"
  by (induction tps arbitrary: i loc) (auto simp: Let_def)

lemma tdm_scan_iter:
  "\<not> fst (tdm_scan R cl skb tps i loc) \<Longrightarrow>
   l_iter (snd (tdm_scan R cl skb tps i loc)) =
     l_iter loc + of_nat (length (filter (\<lambda>tp. mptcp_tdm_is_available tp (Some skb) False cl) tps))"
  by (induction tps arbitrary: i loc) (auto simp: Let_def split: if_splits)

lemma tdm_scan_full_subs:
  "\<not> fst (tdm_scan R cl skb tps i loc) \<Longrightarrow>
   l_full_subs (snd (tdm_scan R cl skb tps i loc)) =
     l_full_subs loc + of_nat (length (filter (\<lambda>tp. mptcp_tdm_is_available tp (Some skb) False cl
        \<and> sint R \<le> sint (quota tp)) tps))"
  by (induction tps arbitrary: i loc) (auto simp: Let_def split: if_splits)

lemma tdm_scan_keep:
  "\<not> fst (tdm_scan R cl skb tps i loc) \<Longrightarrow>
   \<forall>tp\<in>set tps. \<not> (mptcp_tdm_is_available tp (Some skb) False cl \<and> quota tp = 0) \<Longrightarrow>
   l_choose_sk (snd (tdm_scan R cl skb tps i loc)) = l_choose_sk loc \<and>
   l_split (snd (tdm_scan R cl skb tps i loc)) = l_split loc"
  by (induction tps arbitrary: i loc) (auto simp: Let_def split: if_splits)

lemma tdm_scan_last_idle:
  "k < length tps \<Longrightarrow>
   mptcp_tdm_is_available (tps ! k) (Some skb) False cl \<and> quota (tps ! k) = 0 \<Longrightarrow>
   \<forall>j. k < j \<and> j < length tps \<longrightarrow>
       \<not> (mptcp_tdm_is_available (tps ! j) (Some skb) False cl \<and> quota (tps ! j) = 0) \<Longrightarrow>
   \<not> fst (tdm_scan R cl skb tps i loc) \<Longrightarrow>
   l_choose_sk (snd (tdm_scan R cl skb tps i loc)) = Some (i + k) \<and>
   l_split (snd (tdm_scan R cl skb tps i loc)) = R"
proof (induction tps arbitrary: i k loc)
  case Nil
  then show ?case by simp
next
  case (Cons tp tps)
  show ?case
  proof (cases k)
    case 0
    with Cons.prems(2) have tp: "mptcp_tdm_is_available tp (Some skb) False cl" "quota tp = 0"
      by simp_all
    from Cons.prems(3) 0
    have rest: "\<forall>x\<in>set tps. \<not> (mptcp_tdm_is_available x (Some skb) False cl \<and> quota x = 0)"
      by (metis Suc_less_eq in_set_conv_nth length_Cons nth_Cons_Suc zero_less_Suc)
    from Cons.prems(4) tp
    have nf: "\<not> fst (tdm_scan R cl skb tps (Suc i)
        (if sint R \<le> 0
         then loc\<lparr>l_iter := l_iter loc + 1, l_split := R, l_choose_sk := Some i,
                  l_full_subs := l_full_subs loc + 1\<rparr>
         else loc\<lparr>l_iter := l_iter loc + 1, l_split := R, l_choose_sk := Some i\<rparr>))"
      by (simp add: Let_def split: if_splits)
    from tdm_scan_keep [OF nf rest] tp 0 show ?thesis
      by (simp add: Let_def split: if_splits)
  next
    case (Suc k')
    from Cons.prems Suc have a: "k' < length tps"
      and b: "mptcp_tdm_is_available (tps ! k') (Some skb) False cl \<and> quota (tps ! k') = 0"
      by simp_all
    from Cons.prems(3) Suc
    have c: "\<forall>j. k' < j \<and> j < length tps \<longrightarrow>
       \<not> (mptcp_tdm_is_available (tps ! j) (Some skb) False cl \<and> quota (tps ! j) = 0)"
      by (metis Suc_less_eq length_Cons nth_Cons_Suc)
    from Cons.prems(4) Cons.IH [OF a b c] Suc show ?thesis
      by (auto simp: Let_def split: if_splits)
  qed
qed

lemma tdm_scan_first_partial:
  "k < length tps \<Longrightarrow>
   mptcp_tdm_is_available (tps ! k) (Some skb) False cl \<and>
     0 < sint (quota (tps ! k)) \<and> sint (quota (tps ! k)) < sint R \<Longrightarrow>
   \<forall>j<k. \<not> (mptcp_tdm_is_available (tps ! j) (Some skb) False cl \<and>
     0 < sint (quota (tps ! j)) \<and> sint (quota (tps ! j)) < sint R) \<Longrightarrow>
   fst (tdm_scan R cl skb tps i loc) \<and>
   l_choose_sk (snd (tdm_scan R cl skb tps i loc)) = Some (i + k) \<and>
   l_split (snd (tdm_scan R cl skb tps i loc)) = R - quota (tps ! k)"
proof (induction tps arbitrary: i k loc)
  case Nil
  then show ?case by simp
next
  case (Cons tp tps)
  show ?case
  proof (cases k)
    case 0
    with Cons.prems show ?thesis by (simp add: Let_def)
  next
    case (Suc k')
    from Cons.prems(3) Suc
    have first: "\<not> (mptcp_tdm_is_available tp (Some skb) False cl \<and>
       0 < sint (quota tp) \<and> sint (quota tp) < sint R)"
      by (metis nth_Cons_0 zero_less_Suc)
    from Cons.prems(3) Suc
    have rest: "\<forall>j<k'. \<not> (mptcp_tdm_is_available (tps ! j) (Some skb) False cl \<and>
       0 < sint (quota (tps ! j)) \<and> sint (quota (tps ! j)) < sint R)"
      by (metis Suc_less_eq nth_Cons_Suc)
    from Cons.prems(1,2) Suc have a: "k' < length tps"
      and b: "mptcp_tdm_is_available (tps ! k') (Some skb) False cl \<and>
        0 < sint (quota (tps ! k')) \<and> sint (quota (tps ! k')) < sint R"
      by simp_all
    from Cons.IH [OF a b rest] first Suc show ?thesis
      by (auto simp: Let_def)
  qed
qed

lemma tdm_reset_length [simp]: "length (tdm_reset cl skb tps) = length tps"
  by (simp add: tdm_reset_def)

lemma tdm_reset_nth:
  "j < length tps \<Longrightarrow>
   tdm_reset cl skb tps ! j =
     (if mptcp_tdm_is_available (tps ! j) (Some skb) False cl then (tps ! j)\<lparr>quota := 0\<rparr>
      else tps ! j)"
  by (simp add: tdm_reset_def)

lemma tdm_reset_filter:
  "length (filter (\<lambda>tp. mptcp_tdm_is_available tp (Some skb) False cl) (tdm_reset cl skb tps)) =
   length (filter (\<lambda>tp. mptcp_tdm_is_available tp (Some skb) False cl) tps)"
  by (induction tps) (auto simp: tdm_reset_def)

lemma tdm_reset_idle:
  "tp \<in> set (tdm_reset cl skb tps) \<Longrightarrow> mptcp_tdm_is_available tp (Some skb) False cl \<Longrightarrow>
   quota tp = 0"
  by (auto simp: tdm_reset_def split: if_splits)

section \<open>Termination of the quota-based selection\<close>

lemma tdm_retry_two_scans:
  assumes R: "0 < sint R"
  shows "\<exists>tps' loc passes.
     tdm_retry R cl skb tps \<lparr>l_iter = 0, l_full_subs = 0, l_choose_sk = None, l_split = R\<rparr> 0
       = Some (tps', loc, passes) \<and> 1 \<le> passes \<and> passes \<le> 2 \<and>
     length tps' = length tps \<and>
     (passes = 1 \<longrightarrow> tps' = tps) \<and>
     (passes = 2 \<longrightarrow>
        (\<forall>j<length tps. tps' ! j =
           (if mptcp_tdm_is_available (tps ! j) (Some skb) False cl
            then (tps ! j)\<lparr>quota := 0\<rparr> else tps ! j)) \<and>
        (\<exists>i<length tps. l_choose_sk loc = Some i \<and>
           mptcp_tdm_is_available (tps ! i) (Some skb) False cl \<and>
           tps' ! i = (tps ! i)\<lparr>quota := 0\<rparr> \<and>
           (\<forall>j. i < j \<and> j < length tps \<longrightarrow>
              \<not> mptcp_tdm_is_available (tps ! j) (Some skb) False cl)))"
proof -
  let ?E = "\<lambda>tp. mptcp_tdm_is_available tp (Some skb) False cl"
  let ?loc0 = "\<lparr>l_iter = 0, l_full_subs = 0, l_choose_sk = None, l_split = R\<rparr>"
  let ?r = "tdm_scan R cl skb tps 0 ?loc0"
  let ?again = "l_iter (snd ?r) \<noteq> 0 \<and> l_iter (snd ?r) = l_full_subs (snd ?r)"
  show ?thesis
  proof (cases "\<not> fst ?r \<and> ?again")
    case False
    then have "tdm_retry R cl skb tps ?loc0 0 = Some (tps, snd ?r, 1)"
      by (auto simp: tdm_retry.simps [of R cl skb tps ?loc0 0] Let_def)
    then show ?thesis by simp
  next
    case True
    let ?tps = "tdm_reset cl skb tps"
    let ?r2 = "tdm_scan R cl skb ?tps 0 (snd ?r)"
    from True have nf: "\<not> fst ?r" and again: ?again by blast+
    have it: "l_iter (snd ?r) = of_nat (length (filter ?E tps))"
      using tdm_scan_iter [OF nf] by simp
    have idle: "\<forall>tp\<in>set ?tps. ?E tp \<longrightarrow> quota tp = 0"
      by (auto dest: tdm_reset_idle)
    then have "\<forall>tp\<in>set ?tps. \<not> (?E tp \<and> 0 < sint (quota tp) \<and> sint (quota tp) < sint R)"
      by auto
    then have nf2: "\<not> fst ?r2"
      by (simp add: tdm_scan_no_partial)
    have it2: "l_iter (snd ?r2) = l_iter (snd ?r) + l_iter (snd ?r)"
      using tdm_scan_iter [OF nf2] it by (simp add: tdm_reset_filter)
    have "filter (\<lambda>tp. ?E tp \<and> sint R \<le> sint (quota tp)) ?tps = []"
      using idle R by (auto simp: filter_empty_conv)
    then have full2: "l_full_subs (snd ?r2) = l_full_subs (snd ?r)"
      using tdm_scan_full_subs [OF nf2] by simp
    from it2 full2 again have stop: "\<not> (l_iter (snd ?r2) \<noteq> 0 \<and> l_iter (snd ?r2) = l_full_subs (snd ?r2))"
      by auto
    have second: "tdm_retry R cl skb ?tps (snd ?r) (Suc 0) = Some (?tps, snd ?r2, Suc (Suc 0))"
      using nf2 stop by (auto simp: tdm_retry.simps [of R cl skb ?tps "snd ?r" "Suc 0"] Let_def)
    have first: "tdm_retry R cl skb tps ?loc0 0 = tdm_retry R cl skb ?tps (snd ?r) (Suc 0)"
      using nf again by (auto simp: tdm_retry.simps [of R cl skb tps ?loc0 0] Let_def)
    from first second
    have run: "tdm_retry R cl skb tps ?loc0 0 = Some (?tps, snd ?r2, 2)"
      by (simp add: numeral_2_eq_2)
    from again it have "filter ?E tps \<noteq> []" by auto
    then have "length (filter ?E ?tps) \<noteq> 0"
      by (simp add: tdm_reset_filter)
    then have "\<exists>tp\<in>set ?tps. ?E tp \<and> quota tp = 0"
      using idle by (auto simp: filter_empty_conv)
    from ex_last_index [OF this] obtain k where k: "k < length ?tps"
      "?E (?tps ! k) \<and> quota (?tps ! k) = 0"
      "\<forall>j. k < j \<and> j < length ?tps \<longrightarrow> \<not> (?E (?tps ! j) \<and> quota (?tps ! j) = 0)"
      by blast
    from tdm_scan_last_idle [OF k nf2] have ch: "l_choose_sk (snd ?r2) = Some k" by simp
    from k(1) have kl: "k < length tps" by simp
    from k(2) kl have ek: "?E (tps ! k)"
      by (simp add: tdm_reset_nth split: if_splits)
    with kl have nk: "?tps ! k = (tps ! k)\<lparr>quota := 0\<rparr>"
      by (simp add: tdm_reset_nth)
    have last: "\<forall>j. k < j \<and> j < length tps \<longrightarrow> \<not> ?E (tps ! j)"
    proof (intro allI impI notI)
      fix j assume j: "k < j \<and> j < length tps" and e: "?E (tps ! j)"
      then have "?tps ! j = (tps ! j)\<lparr>quota := 0\<rparr>" by (simp add: tdm_reset_nth)
      with e have "?E (?tps ! j) \<and> quota (?tps ! j) = 0" by simp
      with k(3) j show False by auto
    qed
    have nth: "\<forall>j<length tps. ?tps ! j = (if ?E (tps ! j) then (tps ! j)\<lparr>quota := 0\<rparr> else tps ! j)"
      by (simp add: tdm_reset_nth)
    have c: "\<exists>i<length tps. l_choose_sk (snd ?r2) = Some i \<and> ?E (tps ! i) \<and>
           ?tps ! i = (tps ! i)\<lparr>quota := 0\<rparr> \<and>
           (\<forall>j. i < j \<and> j < length tps \<longrightarrow> \<not> ?E (tps ! j))"
      using kl ch ek nk last by blast
    have len: "length ?tps = length tps" by simp
    from run len nth c show ?thesis
      by (intro exI [of _ ?tps] exI [of _ "snd ?r2"] exI [of _ 2]) simp
  qed
qed

lemma next_segment_returns:
  assumes R: "0 < sint R"
  shows "\<exists>r. mptcp_tdm_next_segment R cl meta subsk0 = Some r"
proof (cases "dunder_mptcp_tdm_next_segment meta")
  case (Pair skb reinject)
  show ?thesis
  proof (cases skb)
    case None
    with Pair show ?thesis by (simp add: mptcp_tdm_next_segment_def)
  next
    case (Some s)
    from tdm_retry_two_scans [OF R, of cl s "subflows meta"] obtain tps loc passes
      where "tdm_retry R cl s (subflows meta)
         \<lparr>l_iter = 0, l_full_subs = 0, l_choose_sk = None, l_split = R\<rparr> 0 = Some (tps, loc, passes)"
      by blast
    with Pair Some show ?thesis
      by (simp add: mptcp_tdm_next_segment_def Let_def split: prod.splits)
  qed
qed

text \<open>
  C2: with a positive round size, \<open>mptcp_tdm_next_segment\<close> returns on every connection
  state. From the initial values of the locals the code under the \<^verbatim>\<open>retry\<close> label is
  entered once or twice (\<open>passes \<le> 2\<close>), on the subflows of the connection, and for the
  head of the send queue the call returns what the code under \<^verbatim>\<open>found\<close> makes of the
  result of these scans.
  \<^item> After a single scan the subflows are as they were.
  \<^item> A second scan happens only after the restart of the round: every subflow of the
    connection that passes the test of the scan has its quota cleared, the others are
    as they were. This scan leaves in \<^verbatim>\<open>choose_sk\<close> the last subflow of the connection
    that passes the test, and its quota is 0.
\<close>

theorem next_segment_terminates_in_two_scans:
  assumes "0 < sint num_segments"
  shows "(\<exists>r. mptcp_tdm_next_segment num_segments cwnd_limited meta subsk0 = Some r) \<and>
    (\<exists>tps loc passes.
       tdm_retry num_segments cwnd_limited skb (subflows meta)
         \<lparr>l_iter = 0, l_full_subs = 0, l_choose_sk = None, l_split = num_segments\<rparr> 0
         = Some (tps, loc, passes) \<and> 1 \<le> passes \<and> passes \<le> 2 \<and>
       length tps = length (subflows meta) \<and>
       (passes = 1 \<longrightarrow> tps = subflows meta) \<and>
       (passes = 2 \<longrightarrow>
          (\<forall>j<length (subflows meta). tps ! j =
             (if mptcp_tdm_is_available (subflows meta ! j) (Some skb) False cwnd_limited
              then (subflows meta ! j)\<lparr>quota := 0\<rparr> else subflows meta ! j)) \<and>
          (\<exists>i<length (subflows meta). l_choose_sk loc = Some i \<and>
             mptcp_tdm_is_available (subflows meta ! i) (Some skb) False cwnd_limited \<and>
             tps ! i = (subflows meta ! i)\<lparr>quota := 0\<rparr> \<and>
             (\<forall>j. i < j \<and> j < length (subflows meta) \<longrightarrow>
                \<not> mptcp_tdm_is_available (subflows meta ! j) (Some skb) False cwnd_limited))) \<and>
       (dunder_mptcp_tdm_next_segment meta = (Some skb, 0) \<longrightarrow>
          mptcp_tdm_next_segment num_segments cwnd_limited meta subsk0 =
            Some (map_sum id (\<lambda>(tps', dec). (meta\<lparr>subflows := tps'\<rparr>, dec))
                   (tdm_found skb tps (l_choose_sk loc) (l_split loc) subsk0))))"
proof -
  let ?loc0 = "\<lparr>l_iter = 0, l_full_subs = 0, l_choose_sk = None, l_split = num_segments\<rparr>"
  let ?E = "\<lambda>tp. mptcp_tdm_is_available tp (Some skb) False cwnd_limited"
  from tdm_retry_two_scans [OF assms, of cwnd_limited skb "subflows meta"]
  obtain tps loc passes
    where run: "tdm_retry num_segments cwnd_limited skb (subflows meta) ?loc0 0 = Some (tps, loc, passes)"
      and p1: "1 \<le> passes" and p2: "passes \<le> 2"
      and len: "length tps = length (subflows meta)"
      and one: "passes = 1 \<longrightarrow> tps = subflows meta"
      and two: "passes = 2 \<longrightarrow>
          (\<forall>j<length (subflows meta). tps ! j =
             (if ?E (subflows meta ! j) then (subflows meta ! j)\<lparr>quota := 0\<rparr> else subflows meta ! j)) \<and>
          (\<exists>i<length (subflows meta). l_choose_sk loc = Some i \<and> ?E (subflows meta ! i) \<and>
             tps ! i = (subflows meta ! i)\<lparr>quota := 0\<rparr> \<and>
             (\<forall>j. i < j \<and> j < length (subflows meta) \<longrightarrow> \<not> ?E (subflows meta ! j)))"
    by blast
  have call: "dunder_mptcp_tdm_next_segment meta = (Some skb, 0) \<longrightarrow>
          mptcp_tdm_next_segment num_segments cwnd_limited meta subsk0 =
            Some (map_sum id (\<lambda>(tps', dec). (meta\<lparr>subflows := tps'\<rparr>, dec))
                   (tdm_found skb tps (l_choose_sk loc) (l_split loc) subsk0))"
    using run by (simp add: mptcp_tdm_next_segment_def)
  have ret: "\<exists>r. mptcp_tdm_next_segment num_segments cwnd_limited meta subsk0 = Some r"
    by (rule next_segment_returns [OF assms])
  from run p1 p2 len one two call
  have "\<exists>tps loc passes.
       tdm_retry num_segments cwnd_limited skb (subflows meta) ?loc0 0
         = Some (tps, loc, passes) \<and> 1 \<le> passes \<and> passes \<le> 2 \<and>
       length tps = length (subflows meta) \<and>
       (passes = 1 \<longrightarrow> tps = subflows meta) \<and>
       (passes = 2 \<longrightarrow>
          (\<forall>j<length (subflows meta). tps ! j =
             (if ?E (subflows meta ! j) then (subflows meta ! j)\<lparr>quota := 0\<rparr> else subflows meta ! j)) \<and>
          (\<exists>i<length (subflows meta). l_choose_sk loc = Some i \<and> ?E (subflows meta ! i) \<and>
             tps ! i = (subflows meta ! i)\<lparr>quota := 0\<rparr> \<and>
             (\<forall>j. i < j \<and> j < length (subflows meta) \<longrightarrow> \<not> ?E (subflows meta ! j)))) \<and>
       (dunder_mptcp_tdm_next_segment meta = (Some skb, 0) \<longrightarrow>
          mptcp_tdm_next_segment num_segments cwnd_limited meta subsk0 =
            Some (map_sum id (\<lambda>(tps', dec). (meta\<lparr>subflows := tps'\<rparr>, dec))
                   (tdm_found skb tps (l_choose_sk loc) (l_split loc) subsk0)))"
    by (intro exI conjI)
  with ret show ?thesis by (rule conjI)
qed

theorem next_segment_terminates_in_two_scans_witness:
  "0 < sint (3 :: c_int) \<and>
   dunder_mptcp_tdm_next_segment (ex_meta [ex_sub\<lparr>quota := 3\<rparr>]) = (Some ex_skb, 0) \<and>
   mptcp_tdm_next_segment 3 True (ex_meta [ex_sub\<lparr>quota := 3\<rparr>]) None =
     Some (Inr (ex_meta [ex_sub\<lparr>quota := 1\<rparr>],
           \<lparr>d_skb = Some ex_skb, d_reinject = 0, d_subsk = Some 0, d_limit = 4380\<rparr>)) \<and>
   tdm_retry 3 True ex_skb (subflows (ex_meta [ex_sub\<lparr>quota := 3\<rparr>]))
       \<lparr>l_iter = 0, l_full_subs = 0, l_choose_sk = None, l_split = 3\<rparr> 0 =
     Some ([ex_sub\<lparr>quota := 0\<rparr>],
           \<lparr>l_iter = 2, l_full_subs = 1, l_choose_sk = Some 0, l_split = 3\<rparr>, 2)"
  using next_segment_terminates_in_two_scans [of 3 True "ex_meta [ex_sub\<lparr>quota := 3\<rparr>]" None ex_skb]
  by (simp add: mptcp_tdm_next_segment_def dunder_mptcp_tdm_next_segment_def tdm_retry.simps
      tdm_reset_def tdm_found_def mptcp_tdm_is_available_def ex_sub_def ex_skb_def ex_meta_def)

section \<open>The check before a decision is returned\<close>

lemma tdm_scan_choose_range:
  "l_choose_sk (snd (tdm_scan R cl skb tps i loc)) = Some k \<Longrightarrow>
   (i \<le> k \<and> k < i + length tps) \<or> l_choose_sk loc = Some k"
proof (induction tps arbitrary: i loc)
  case Nil
  then show ?case by simp
next
  case (Cons tp tps)
  show ?case
  proof (cases "mptcp_tdm_is_available tp (Some skb) False cl")
    case False
    with Cons.prems Cons.IH [of "Suc i" loc] show ?thesis by auto
  next
    case avail: True
    show ?thesis
    proof (cases "0 < sint (quota tp) \<and> sint (quota tp) < sint R")
      case True
      with avail Cons.prems show ?thesis by (auto simp: Let_def)
    next
      case False
      let ?loc1 = "loc\<lparr>l_iter := l_iter loc + 1\<rparr>"
      let ?loc2 = "if quota tp = 0 then ?loc1\<lparr>l_split := R, l_choose_sk := Some i\<rparr> else ?loc1"
      let ?loc3 = "if sint R \<le> sint (quota tp)
                   then ?loc2\<lparr>l_full_subs := l_full_subs ?loc2 + 1\<rparr> else ?loc2"
      from avail False
      have "tdm_scan R cl skb (tp # tps) i loc = tdm_scan R cl skb tps (Suc i) ?loc3"
        by (auto simp: Let_def)
      with Cons.prems have "l_choose_sk (snd (tdm_scan R cl skb tps (Suc i) ?loc3)) = Some k"
        by simp
      from Cons.IH [OF this] show ?thesis
        by (auto split: if_splits)
    qed
  qed
qed

lemma tdm_retry_frame:
  assumes "tdm_retry R cl skb tps loc p = Some y"
  shows "length (fst y) = length tps \<and>
     (\<forall>j<length tps. \<exists>q. fst y ! j = (tps ! j)\<lparr>quota := q\<rparr>) \<and>
     (\<forall>k. l_choose_sk (fst (snd y)) = Some k \<longrightarrow> k < length tps \<or> l_choose_sk loc = Some k)"
proof (rule tdm_retry.raw_induct [where P = "\<lambda>R cl skb tps loc p y.
     length (fst y) = length tps \<and>
     (\<forall>j<length tps. \<exists>q. fst y ! j = (tps ! j)\<lparr>quota := q\<rparr>) \<and>
     (\<forall>k. l_choose_sk (fst (snd y)) = Some k \<longrightarrow> k < length tps \<or> l_choose_sk loc = Some k)",
     OF _ assms], goal_cases)
  case (1 f R cl skb tps loc p y)
  let ?r = "tdm_scan R cl skb tps 0 loc"
  have range: "k < length tps \<or> l_choose_sk loc = Some k" if "l_choose_sk (snd ?r) = Some k" for k
    using tdm_scan_choose_range [OF that] by auto
  have same: "\<forall>j<length tps. \<exists>q. tps ! j = (tps ! j)\<lparr>quota := q\<rparr>"
    by (metis tcp_sock.surjective tcp_sock.update_convs(20))
  show ?case
  proof (cases "\<not> fst ?r \<and> l_iter (snd ?r) \<noteq> 0 \<and> l_iter (snd ?r) = l_full_subs (snd ?r)")
    case False
    with 1(2) have "y = (tps, snd ?r, Suc p)"
      by (auto simp: Let_def split: if_splits)
    with range same show ?thesis by auto
  next
    case True
    with 1(2) have "f R cl skb (tdm_reset cl skb tps) (snd ?r) (Suc p) = Some y"
      by (auto simp: Let_def split: if_splits)
    from 1(1) [OF this]
    have len: "length (fst y) = length tps"
      and nth: "\<forall>j<length tps. \<exists>q. fst y ! j = (tdm_reset cl skb tps ! j)\<lparr>quota := q\<rparr>"
      and ch: "\<forall>k. l_choose_sk (fst (snd y)) = Some k \<longrightarrow>
                  k < length tps \<or> l_choose_sk (snd ?r) = Some k"
      by simp_all
    from nth have "\<forall>j<length tps. \<exists>q. fst y ! j = (tps ! j)\<lparr>quota := q\<rparr>"
      by (auto simp: tdm_reset_nth split: if_splits)
    moreover from ch range
    have "\<forall>k. l_choose_sk (fst (snd y)) = Some k \<longrightarrow> k < length tps \<or> l_choose_sk loc = Some k"
      by blast
    ultimately show ?thesis using len by simp
  qed
qed

lemma tdm_retry_reset_frame:
  assumes "tdm_retry R cl skb tps loc p = Some y"
  shows "\<forall>j<length tps. fst y ! j = tps ! j \<or>
     mptcp_tdm_is_available (tps ! j) (Some skb) False cl \<and> fst y ! j = (tps ! j)\<lparr>quota := 0\<rparr>"
proof (rule tdm_retry.raw_induct [where P = "\<lambda>R cl skb tps loc p y.
     \<forall>j<length tps. fst y ! j = tps ! j \<or>
     mptcp_tdm_is_available (tps ! j) (Some skb) False cl \<and> fst y ! j = (tps ! j)\<lparr>quota := 0\<rparr>",
     OF _ assms], goal_cases)
  case (1 f R cl skb tps loc p y)
  let ?r = "tdm_scan R cl skb tps 0 loc"
  show ?case
  proof (cases "\<not> fst ?r \<and> l_iter (snd ?r) \<noteq> 0 \<and> l_iter (snd ?r) = l_full_subs (snd ?r)")
    case False
    with 1(2) have "y = (tps, snd ?r, Suc p)"
      by (auto simp: Let_def split: if_splits)
    then show ?thesis by simp
  next
    case True
    with 1(2) have "f R cl skb (tdm_reset cl skb tps) (snd ?r) (Suc p) = Some y"
      by (auto simp: Let_def split: if_splits)
    from 1(1) [OF this]
    have nth: "\<forall>j<length tps. fst y ! j = tdm_reset cl skb tps ! j \<or>
       mptcp_tdm_is_available (tdm_reset cl skb tps ! j) (Some skb) False cl \<and>
       fst y ! j = (tdm_reset cl skb tps ! j)\<lparr>quota := 0\<rparr>"
      by simp
    show ?thesis
    proof (intro allI impI)
      fix j assume j: "j < length tps"
      with nth have a: "fst y ! j = tdm_reset cl skb tps ! j \<or>
         mptcp_tdm_is_available (tdm_reset cl skb tps ! j) (Some skb) False cl \<and>
         fst y ! j = (tdm_reset cl skb tps ! j)\<lparr>quota := 0\<rparr>"
        by blast
      show "fst y ! j = tps ! j \<or>
        mptcp_tdm_is_available (tps ! j) (Some skb) False cl \<and> fst y ! j = (tps ! j)\<lparr>quota := 0\<rparr>"
      proof (cases "mptcp_tdm_is_available (tps ! j) (Some skb) False cl")
        case True
        with j have "tdm_reset cl skb tps ! j = (tps ! j)\<lparr>quota := 0\<rparr>"
          by (simp add: tdm_reset_nth)
        with a True show ?thesis by auto
      next
        case False
        with j have "tdm_reset cl skb tps ! j = tps ! j"
          by (simp add: tdm_reset_nth)
        with a False show ?thesis by auto
      qed
    qed
  qed
qed

lemma tdm_found_None:
  "tdm_found skb tps None split subsk0 =
     Inr (tps, \<lparr>d_skb = None, d_reinject = 0, d_subsk = subsk0, d_limit = 0\<rparr>)"
  by (simp add: tdm_found_def)

lemma tdm_found_outcome:
  "map_sum id (\<lambda>(tps', dec). (meta\<lparr>subflows := tps'\<rparr>, dec)) (tdm_found skb tps (Some k) split subsk0) =
    (if \<not> mptcp_tdm_is_available (tps ! k) (Some skb) False True
     then Inr (meta\<lparr>subflows := tps\<rparr>,
               \<lparr>d_skb = None, d_reinject = 0, d_subsk = subsk0, d_limit = 0\<rparr>)
     else if current_mss (tps ! k) < skb_len skb \<and> current_mss (tps ! k) = 0
     then Inl Divide_Error
     else Inr (meta\<lparr>subflows := tps[k := (tps ! k)\<lparr>quota := quota (tps ! k) +
                   (if current_mss (tps ! k) < skb_len skb
                    then DIV_ROUND_UP (skb_len skb) (current_mss (tps ! k)) else 1)\<rparr>]\<rparr>,
               \<lparr>d_skb = Some skb, d_reinject = 0, d_subsk = Some k,
                d_limit = split * current_mss (tps ! k)\<rparr>))"
  by (auto simp: tdm_found_def Let_def)

text \<open>
  C6, as stated, fails: the receive window of the only subflow is exhausted
  (\<open>write_seq\<close> is beyond \<open>wnd_end\<close>), so the subflow does not pass the checks with the
  zero-window test; the call still returns the segment on this subflow.
\<close>

theorem next_segment_recheck_counterexample:
  "\<not> mptcp_tdm_is_available ex_zero_wnd (Some ex_skb) True True \<and>
   mptcp_tdm_next_segment 10000 True (ex_meta [ex_zero_wnd]) None =
     Some (Inr (ex_meta [ex_zero_wnd\<lparr>quota := 1\<rparr>],
           \<lparr>d_skb = Some ex_skb, d_reinject = 0, d_subsk = Some 0, d_limit = 14600000\<rparr>))"
  by (simp add: mptcp_tdm_next_segment_def dunder_mptcp_tdm_next_segment_def tdm_retry.simps
      tdm_found_def mptcp_tdm_is_available_def ex_zero_wnd_def ex_sub_def ex_skb_def ex_meta_def
      before_def)

text \<open>
  C6, amended: the check before the return is \<open>mptcp_tdm_is_available\<close> with the
  congestion-window test forced on and the zero-window test off. In the quota-based
  branch (the candidate is the head of the send queue) a call that returns has run the
  scans, which leave every subflow of the connection as it was or, after a restart of
  the round, with its quota cleared. Then:
  \<^item> when the scans chose no subflow, the call returns no segment;
  \<^item> when the chosen subflow passes the check, the call returns the segment on this
    subflow, with the byte limit, and adds the count of the segment to its quota;
  \<^item> when the chosen subflow fails the check, the call returns no segment and a byte
    limit of 0, leaves \<^verbatim>\<open>*subsk\<close> alone and adds nothing to a quota (the quotas that a
    restart has cleared stay cleared).

  So a returned segment is the head of the send queue, on a subflow that passes the
  check.
\<close>

theorem next_segment_recheck:
  assumes cand: "dunder_mptcp_tdm_next_segment meta = (Some skb, 0)"
    and ret: "mptcp_tdm_next_segment num_segments cwnd_limited meta subsk0 = Some (Inr (meta', d))"
  shows "(\<exists>tps loc passes.
     tdm_retry num_segments cwnd_limited skb (subflows meta)
       \<lparr>l_iter = 0, l_full_subs = 0, l_choose_sk = None, l_split = num_segments\<rparr> 0
       = Some (tps, loc, passes) \<and>
     length tps = length (subflows meta) \<and>
     (\<forall>j<length (subflows meta). tps ! j = subflows meta ! j \<or>
        mptcp_tdm_is_available (subflows meta ! j) (Some skb) False cwnd_limited \<and>
        tps ! j = (subflows meta ! j)\<lparr>quota := 0\<rparr>) \<and>
     (case l_choose_sk loc of
        None \<Rightarrow> meta' = meta\<lparr>subflows := tps\<rparr> \<and>
          d = \<lparr>d_skb = None, d_reinject = 0, d_subsk = subsk0, d_limit = 0\<rparr>
      | Some i \<Rightarrow> i < length (subflows meta) \<and>
          (if mptcp_tdm_is_available (subflows meta ! i) (Some skb) False True
           then meta' = meta\<lparr>subflows := tps[i := (tps ! i)\<lparr>quota := quota (tps ! i) +
                   (if current_mss (subflows meta ! i) < skb_len skb
                    then DIV_ROUND_UP (skb_len skb) (current_mss (subflows meta ! i)) else 1)\<rparr>]\<rparr> \<and>
                d = \<lparr>d_skb = Some skb, d_reinject = 0, d_subsk = Some i,
                     d_limit = l_split loc * current_mss (subflows meta ! i)\<rparr>
           else meta' = meta\<lparr>subflows := tps\<rparr> \<and>
                d = \<lparr>d_skb = None, d_reinject = 0, d_subsk = subsk0, d_limit = 0\<rparr>))) \<and>
    (\<forall>s. d_skb d = Some s \<longrightarrow> s = skb \<and> send_head meta = Some skb \<and>
       (\<exists>i<length (subflows meta). d_subsk d = Some i \<and>
          mptcp_tdm_is_available (subflows meta ! i) (Some skb) False True))"
proof -
  let ?loc0 = "\<lparr>l_iter = 0, l_full_subs = 0, l_choose_sk = None, l_split = num_segments\<rparr>"
  let ?none = "\<lparr>d_skb = None, d_reinject = 0, d_subsk = subsk0, d_limit = 0\<rparr>"
  from cand have head: "send_head meta = Some skb"
    by (auto simp: dunder_mptcp_tdm_next_segment_def split: if_splits list.splits)
  from ret cand obtain tps loc p
    where run: "tdm_retry num_segments cwnd_limited skb (subflows meta) ?loc0 0 = Some (tps, loc, p)"
    by (auto simp: mptcp_tdm_next_segment_def split: option.splits)
  with ret cand
  have found: "map_sum id (\<lambda>(tps', dec). (meta\<lparr>subflows := tps'\<rparr>, dec))
          (tdm_found skb tps (l_choose_sk loc) (l_split loc) subsk0) = Inr (meta', d)"
    by (simp add: mptcp_tdm_next_segment_def)
  from tdm_retry_frame [OF run]
  have len: "length tps = length (subflows meta)"
    and same: "\<forall>j<length (subflows meta). \<exists>q. tps ! j = (subflows meta ! j)\<lparr>quota := q\<rparr>"
    and rng: "\<forall>k. l_choose_sk loc = Some k \<longrightarrow> k < length (subflows meta)"
    by simp_all
  from tdm_retry_reset_frame [OF run]
  have frame: "\<forall>j<length (subflows meta). tps ! j = subflows meta ! j \<or>
        mptcp_tdm_is_available (subflows meta ! j) (Some skb) False cwnd_limited \<and>
        tps ! j = (subflows meta ! j)\<lparr>quota := 0\<rparr>"
    by simp
  have dec: "case l_choose_sk loc of
        None \<Rightarrow> meta' = meta\<lparr>subflows := tps\<rparr> \<and> d = ?none
      | Some i \<Rightarrow> i < length (subflows meta) \<and>
          (if mptcp_tdm_is_available (subflows meta ! i) (Some skb) False True
           then meta' = meta\<lparr>subflows := tps[i := (tps ! i)\<lparr>quota := quota (tps ! i) +
                   (if current_mss (subflows meta ! i) < skb_len skb
                    then DIV_ROUND_UP (skb_len skb) (current_mss (subflows meta ! i)) else 1)\<rparr>]\<rparr> \<and>
                d = \<lparr>d_skb = Some skb, d_reinject = 0, d_subsk = Some i,
                     d_limit = l_split loc * current_mss (subflows meta ! i)\<rparr>
           else meta' = meta\<lparr>subflows := tps\<rparr> \<and> d = ?none)"
  proof (cases "l_choose_sk loc")
    case None
    with found show ?thesis by (simp add: tdm_found_None)
  next
    case (Some i)
    with rng have i: "i < length (subflows meta)" by simp
    with same obtain q where q: "tps ! i = (subflows meta ! i)\<lparr>quota := q\<rparr>" by blast
    then have av: "mptcp_tdm_is_available (tps ! i) (Some skb) False True \<longleftrightarrow>
        mptcp_tdm_is_available (subflows meta ! i) (Some skb) False True"
      and mss: "current_mss (tps ! i) = current_mss (subflows meta ! i)"
      by simp_all
    from found Some have "(if \<not> mptcp_tdm_is_available (tps ! i) (Some skb) False True
     then Inr (meta\<lparr>subflows := tps\<rparr>, ?none)
     else if current_mss (tps ! i) < skb_len skb \<and> current_mss (tps ! i) = 0
     then Inl Divide_Error
     else Inr (meta\<lparr>subflows := tps[i := (tps ! i)\<lparr>quota := quota (tps ! i) +
                   (if current_mss (tps ! i) < skb_len skb
                    then DIV_ROUND_UP (skb_len skb) (current_mss (tps ! i)) else 1)\<rparr>]\<rparr>,
               \<lparr>d_skb = Some skb, d_reinject = 0, d_subsk = Some i,
                d_limit = l_split loc * current_mss (tps ! i)\<rparr>)) = Inr (meta', d)"
      by (simp only: tdm_found_outcome)
    then have "if mptcp_tdm_is_available (tps ! i) (Some skb) False True
           then meta' = meta\<lparr>subflows := tps[i := (tps ! i)\<lparr>quota := quota (tps ! i) +
                   (if current_mss (tps ! i) < skb_len skb
                    then DIV_ROUND_UP (skb_len skb) (current_mss (tps ! i)) else 1)\<rparr>]\<rparr> \<and>
                d = \<lparr>d_skb = Some skb, d_reinject = 0, d_subsk = Some i,
                     d_limit = l_split loc * current_mss (tps ! i)\<rparr>
           else meta' = meta\<lparr>subflows := tps\<rparr> \<and> d = ?none"
      by (auto split: if_splits)
    with i Some show ?thesis by (simp only: av mss option.case)
  qed
  have ok: "\<forall>s. d_skb d = Some s \<longrightarrow> s = skb \<and> send_head meta = Some skb \<and>
       (\<exists>i<length (subflows meta). d_subsk d = Some i \<and>
          mptcp_tdm_is_available (subflows meta ! i) (Some skb) False True)"
  proof (intro allI impI)
    fix s assume s: "d_skb d = Some s"
    show "s = skb \<and> send_head meta = Some skb \<and>
       (\<exists>i<length (subflows meta). d_subsk d = Some i \<and>
          mptcp_tdm_is_available (subflows meta ! i) (Some skb) False True)"
    proof (cases "l_choose_sk loc")
      case None
      with dec s show ?thesis by simp
    next
      case (Some i)
      with dec s head show ?thesis by (auto split: if_splits)
    qed
  qed
  from run len frame dec
  have "\<exists>tps loc passes.
     tdm_retry num_segments cwnd_limited skb (subflows meta) ?loc0 0 = Some (tps, loc, passes) \<and>
     length tps = length (subflows meta) \<and>
     (\<forall>j<length (subflows meta). tps ! j = subflows meta ! j \<or>
        mptcp_tdm_is_available (subflows meta ! j) (Some skb) False cwnd_limited \<and>
        tps ! j = (subflows meta ! j)\<lparr>quota := 0\<rparr>) \<and>
     (case l_choose_sk loc of
        None \<Rightarrow> meta' = meta\<lparr>subflows := tps\<rparr> \<and> d = ?none
      | Some i \<Rightarrow> i < length (subflows meta) \<and>
          (if mptcp_tdm_is_available (subflows meta ! i) (Some skb) False True
           then meta' = meta\<lparr>subflows := tps[i := (tps ! i)\<lparr>quota := quota (tps ! i) +
                   (if current_mss (subflows meta ! i) < skb_len skb
                    then DIV_ROUND_UP (skb_len skb) (current_mss (subflows meta ! i)) else 1)\<rparr>]\<rparr> \<and>
                d = \<lparr>d_skb = Some skb, d_reinject = 0, d_subsk = Some i,
                     d_limit = l_split loc * current_mss (subflows meta ! i)\<rparr>
           else meta' = meta\<lparr>subflows := tps\<rparr> \<and> d = ?none))"
    by (intro exI conjI)
  with ok show ?thesis by (intro conjI)
qed

theorem next_segment_recheck_witness:
  "dunder_mptcp_tdm_next_segment
      (ex_meta [ex_sub\<lparr>snd_cwnd := 0, quota := 10000\<rparr>, ex_sub2\<lparr>pf := True, quota := 6\<rparr>])
     = (Some ex_skb, 0) \<and>
   mptcp_tdm_is_available (ex_sub\<lparr>snd_cwnd := 0, quota := 10000\<rparr>) (Some ex_skb) False False \<and>
   \<not> mptcp_tdm_is_available (ex_sub\<lparr>snd_cwnd := 0, quota := 10000\<rparr>) (Some ex_skb) False True \<and>
   tdm_retry 10000 False ex_skb
       [ex_sub\<lparr>snd_cwnd := 0, quota := 10000\<rparr>, ex_sub2\<lparr>pf := True, quota := 6\<rparr>]
       \<lparr>l_iter = 0, l_full_subs = 0, l_choose_sk = None, l_split = 10000\<rparr> 0 =
     Some ([ex_sub\<lparr>snd_cwnd := 0, quota := 0\<rparr>, ex_sub2\<lparr>pf := True, quota := 6\<rparr>],
           \<lparr>l_iter = 2, l_full_subs = 1, l_choose_sk = Some 0, l_split = 10000\<rparr>, 2) \<and>
   mptcp_tdm_next_segment 10000 False
      (ex_meta [ex_sub\<lparr>snd_cwnd := 0, quota := 10000\<rparr>, ex_sub2\<lparr>pf := True, quota := 6\<rparr>]) None =
     Some (Inr (ex_meta [ex_sub\<lparr>snd_cwnd := 0, quota := 0\<rparr>, ex_sub2\<lparr>pf := True, quota := 6\<rparr>],
           \<lparr>d_skb = None, d_reinject = 0, d_subsk = None, d_limit = 0\<rparr>))"
proof -
  let ?m = "ex_meta [ex_sub\<lparr>snd_cwnd := 0, quota := 10000\<rparr>, ex_sub2\<lparr>pf := True, quota := 6\<rparr>]"
  let ?m' = "ex_meta [ex_sub\<lparr>snd_cwnd := 0, quota := 0\<rparr>, ex_sub2\<lparr>pf := True, quota := 6\<rparr>]"
  let ?d = "\<lparr>d_skb = None, d_reinject = 0, d_subsk = None :: nat option, d_limit = 0\<rparr>"
  have cand: "dunder_mptcp_tdm_next_segment ?m = (Some ex_skb, 0)"
    by (simp add: dunder_mptcp_tdm_next_segment_def ex_meta_def)
  have a1: "mptcp_tdm_is_available (ex_sub\<lparr>snd_cwnd := 0, quota := 10000\<rparr>) (Some ex_skb) False False"
    and a2: "\<not> mptcp_tdm_is_available (ex_sub\<lparr>snd_cwnd := 0, quota := 10000\<rparr>) (Some ex_skb) False True"
    by (simp_all add: mptcp_tdm_is_available_def ex_sub_def)
  have retry: "tdm_retry 10000 False ex_skb
       [ex_sub\<lparr>snd_cwnd := 0, quota := 10000\<rparr>, ex_sub2\<lparr>pf := True, quota := 6\<rparr>]
       \<lparr>l_iter = 0, l_full_subs = 0, l_choose_sk = None, l_split = 10000\<rparr> 0 =
     Some ([ex_sub\<lparr>snd_cwnd := 0, quota := 0\<rparr>, ex_sub2\<lparr>pf := True, quota := 6\<rparr>],
           \<lparr>l_iter = 2, l_full_subs = 1, l_choose_sk = Some 0, l_split = 10000\<rparr>, 2)"
    by (simp add: tdm_retry.simps tdm_reset_def mptcp_tdm_is_available_def ex_sub_def ex_sub2_def
        ex_skb_def)
  have run: "mptcp_tdm_next_segment 10000 False ?m None = Some (Inr (?m', ?d))"
    using retry a2 cand
    by (simp add: mptcp_tdm_next_segment_def tdm_found_def ex_meta_def)
  from next_segment_recheck [OF cand run] cand a1 a2 retry run show ?thesis by simp
qed

section \<open>The first scan and the restart, from the initial locals\<close>

lemma filter_conj_length_le:
  "length (filter (\<lambda>x. P x \<and> Q x) xs) \<le> length (filter P xs)"
  by (induction xs) auto

lemma filter_conj_length_eq:
  "length (filter (\<lambda>x. P x \<and> Q x) xs) = length (filter P xs) \<longleftrightarrow> (\<forall>x\<in>set xs. P x \<longrightarrow> Q x)"
proof (induction xs)
  case Nil
  then show ?case by simp
next
  case (Cons x xs)
  from filter_conj_length_le [of P Q xs] Cons show ?case by auto
qed

lemma u8_of_nat_eq:
  "n < 256 \<Longrightarrow> m < 256 \<Longrightarrow> (of_nat n :: u8) = of_nat m \<longleftrightarrow> n = m"
proof
  assume "n < 256" "m < 256" "(of_nat n :: u8) = of_nat m"
  then have "unat (of_nat n :: u8) = unat (of_nat m :: u8)" by simp
  with \<open>n < 256\<close> \<open>m < 256\<close> show "n = m" by (simp add: unat_of_nat)
qed simp

text \<open>From the initial locals, with fewer than 256 subflows, the round is restarted exactly
  when some subflow is available and every available subflow has used its quota.\<close>

lemma tdm_scan_restart_iff:
  assumes n: "length tps < 256"
    and nf: "\<not> fst (tdm_scan R cl skb tps 0 \<lparr>l_iter = 0, l_full_subs = 0, l_choose_sk = None, l_split = R\<rparr>)"
  shows "(l_iter (snd (tdm_scan R cl skb tps 0 \<lparr>l_iter = 0, l_full_subs = 0, l_choose_sk = None, l_split = R\<rparr>)) \<noteq> 0 \<and>
          l_iter (snd (tdm_scan R cl skb tps 0 \<lparr>l_iter = 0, l_full_subs = 0, l_choose_sk = None, l_split = R\<rparr>)) =
          l_full_subs (snd (tdm_scan R cl skb tps 0 \<lparr>l_iter = 0, l_full_subs = 0, l_choose_sk = None, l_split = R\<rparr>)))
     \<longleftrightarrow> ((\<exists>tp\<in>set tps. mptcp_tdm_is_available tp (Some skb) False cl) \<and>
          (\<forall>tp\<in>set tps. mptcp_tdm_is_available tp (Some skb) False cl \<longrightarrow> sint R \<le> sint (quota tp)))"
proof -
  let ?E = "\<lambda>tp. mptcp_tdm_is_available tp (Some skb) False cl"
  let ?F = "\<lambda>tp. ?E tp \<and> sint R \<le> sint (quota tp)"
  let ?r = "tdm_scan R cl skb tps 0 \<lparr>l_iter = 0, l_full_subs = 0, l_choose_sk = None, l_split = R\<rparr>"
  have it: "l_iter (snd ?r) = of_nat (length (filter ?E tps))"
    using tdm_scan_iter [OF nf] by simp
  have fu: "l_full_subs (snd ?r) = of_nat (length (filter ?F tps))"
    using tdm_scan_full_subs [OF nf] by simp
  have b1: "length (filter ?E tps) < 256"
    by (rule le_less_trans [OF length_filter_le n])
  have b2: "length (filter ?F tps) < 256"
    by (rule le_less_trans [OF length_filter_le n])
  have z: "(of_nat (length (filter ?E tps)) :: u8) \<noteq> 0 \<longleftrightarrow> (\<exists>tp\<in>set tps. ?E tp)"
    using u8_of_nat_eq [OF b1, of 0] by (auto simp: filter_empty_conv)
  have e: "(of_nat (length (filter ?E tps)) :: u8) = of_nat (length (filter ?F tps))
       \<longleftrightarrow> (\<forall>tp\<in>set tps. ?E tp \<longrightarrow> sint R \<le> sint (quota tp))"
    using u8_of_nat_eq [OF b1 b2] filter_conj_length_eq [of ?E "\<lambda>tp. sint R \<le> sint (quota tp)" tps]
    by auto
  from it fu z e show ?thesis by simp
qed

lemma tdm_retry_once:
  assumes n: "length tps < 256"
    and ne: "\<not> ((\<exists>tp\<in>set tps. mptcp_tdm_is_available tp (Some skb) False cl) \<and>
          (\<forall>tp\<in>set tps. mptcp_tdm_is_available tp (Some skb) False cl \<longrightarrow> sint R \<le> sint (quota tp)))"
  shows "tdm_retry R cl skb tps \<lparr>l_iter = 0, l_full_subs = 0, l_choose_sk = None, l_split = R\<rparr> 0 =
    Some (tps, snd (tdm_scan R cl skb tps 0 \<lparr>l_iter = 0, l_full_subs = 0, l_choose_sk = None, l_split = R\<rparr>), Suc 0)"
proof -
  let ?loc0 = "\<lparr>l_iter = 0, l_full_subs = 0, l_choose_sk = None, l_split = R\<rparr>"
  let ?r = "tdm_scan R cl skb tps 0 ?loc0"
  show ?thesis
  proof (cases "fst ?r")
    case True
    then show ?thesis by (simp add: tdm_retry.simps [of R cl skb tps ?loc0 0] Let_def)
  next
    case False
    from tdm_scan_restart_iff [OF n False] ne
    have "\<not> (l_iter (snd ?r) \<noteq> 0 \<and> l_iter (snd ?r) = l_full_subs (snd ?r))" by blast
    with False show ?thesis
      by (auto simp: tdm_retry.simps [of R cl skb tps ?loc0 0] Let_def)
  qed
qed

lemma tdm_retry_first_partial:
  assumes n: "length tps < 256" and k: "k < length tps"
    and p: "mptcp_tdm_is_available (tps ! k) (Some skb) False cl \<and>
       0 < sint (quota (tps ! k)) \<and> sint (quota (tps ! k)) < sint R"
    and first: "\<forall>j<k. \<not> (mptcp_tdm_is_available (tps ! j) (Some skb) False cl \<and>
       0 < sint (quota (tps ! j)) \<and> sint (quota (tps ! j)) < sint R)"
  shows "\<exists>loc. tdm_retry R cl skb tps \<lparr>l_iter = 0, l_full_subs = 0, l_choose_sk = None, l_split = R\<rparr> 0 =
      Some (tps, loc, Suc 0) \<and> l_choose_sk loc = Some k \<and> l_split loc = R - quota (tps ! k)"
proof -
  let ?loc0 = "\<lparr>l_iter = 0, l_full_subs = 0, l_choose_sk = None, l_split = R\<rparr>"
  from tdm_scan_first_partial [OF k p first, of 0 ?loc0]
  have f: "fst (tdm_scan R cl skb tps 0 ?loc0)"
    and c: "l_choose_sk (snd (tdm_scan R cl skb tps 0 ?loc0)) = Some k"
    and s: "l_split (snd (tdm_scan R cl skb tps 0 ?loc0)) = R - quota (tps ! k)"
    by simp_all
  from f have "tdm_retry R cl skb tps ?loc0 0 = Some (tps, snd (tdm_scan R cl skb tps 0 ?loc0), Suc 0)"
    by (simp add: tdm_retry.simps [of R cl skb tps ?loc0 0] Let_def)
  with c s show ?thesis by blast
qed

lemma tdm_retry_last_idle:
  assumes n: "length tps < 256" and k: "k < length tps"
    and np: "\<forall>tp\<in>set tps. \<not> (mptcp_tdm_is_available tp (Some skb) False cl \<and>
       0 < sint (quota tp) \<and> sint (quota tp) < sint R)"
    and ne: "0 < sint R \<or> (\<exists>tp\<in>set tps. mptcp_tdm_is_available tp (Some skb) False cl \<and>
       sint (quota tp) < sint R)"
    and idle: "mptcp_tdm_is_available (tps ! k) (Some skb) False cl \<and> quota (tps ! k) = 0"
    and last: "\<forall>j. k < j \<and> j < length tps \<longrightarrow>
       \<not> (mptcp_tdm_is_available (tps ! j) (Some skb) False cl \<and> quota (tps ! j) = 0)"
  shows "\<exists>loc. tdm_retry R cl skb tps \<lparr>l_iter = 0, l_full_subs = 0, l_choose_sk = None, l_split = R\<rparr> 0 =
      Some (tps, loc, Suc 0) \<and> l_choose_sk loc = Some k \<and> l_split loc = R"
proof -
  let ?loc0 = "\<lparr>l_iter = 0, l_full_subs = 0, l_choose_sk = None, l_split = R\<rparr>"
  have nf: "\<not> fst (tdm_scan R cl skb tps 0 ?loc0)"
    using tdm_scan_no_partial [OF np] by simp
  have "\<exists>tp\<in>set tps. mptcp_tdm_is_available tp (Some skb) False cl \<and> sint (quota tp) < sint R"
  proof (cases "0 < sint R")
    case True
    with k idle show ?thesis by (metis nth_mem sint_0)
  next
    case False
    with ne show ?thesis by blast
  qed
  then have "\<not> ((\<exists>tp\<in>set tps. mptcp_tdm_is_available tp (Some skb) False cl) \<and>
          (\<forall>tp\<in>set tps. mptcp_tdm_is_available tp (Some skb) False cl \<longrightarrow> sint R \<le> sint (quota tp)))"
    by (metis not_le)
  from tdm_retry_once [OF n this] tdm_scan_last_idle [OF k idle last nf]
  show ?thesis by simp
qed

lemma tdm_retry_none:
  assumes n: "length tps < 256"
    and np: "\<forall>tp\<in>set tps. \<not> (mptcp_tdm_is_available tp (Some skb) False cl \<and>
       0 < sint (quota tp) \<and> sint (quota tp) < sint R)"
    and ni: "\<forall>tp\<in>set tps. \<not> (mptcp_tdm_is_available tp (Some skb) False cl \<and> quota tp = 0)"
    and ne: "\<not> ((\<exists>tp\<in>set tps. mptcp_tdm_is_available tp (Some skb) False cl) \<and>
          (\<forall>tp\<in>set tps. mptcp_tdm_is_available tp (Some skb) False cl \<longrightarrow> sint R \<le> sint (quota tp)))"
  shows "\<exists>loc. tdm_retry R cl skb tps \<lparr>l_iter = 0, l_full_subs = 0, l_choose_sk = None, l_split = R\<rparr> 0 =
      Some (tps, loc, Suc 0) \<and> l_choose_sk loc = None"
proof -
  let ?loc0 = "\<lparr>l_iter = 0, l_full_subs = 0, l_choose_sk = None, l_split = R\<rparr>"
  have nf: "\<not> fst (tdm_scan R cl skb tps 0 ?loc0)"
    using tdm_scan_no_partial [OF np] by simp
  from tdm_retry_once [OF n ne] tdm_scan_keep [OF nf ni]
  show ?thesis by simp
qed

lemma tdm_retry_exhausted:
  assumes n: "length tps < 256" and R: "0 < sint R" and k: "k < length tps"
    and ex: "\<forall>tp\<in>set tps. mptcp_tdm_is_available tp (Some skb) False cl \<longrightarrow> sint R \<le> sint (quota tp)"
    and ek: "mptcp_tdm_is_available (tps ! k) (Some skb) False cl"
    and last: "\<forall>j. k < j \<and> j < length tps \<longrightarrow> \<not> mptcp_tdm_is_available (tps ! j) (Some skb) False cl"
  shows "\<exists>loc. tdm_retry R cl skb tps \<lparr>l_iter = 0, l_full_subs = 0, l_choose_sk = None, l_split = R\<rparr> 0 =
      Some (tdm_reset cl skb tps, loc, Suc (Suc 0)) \<and> l_choose_sk loc = Some k \<and> l_split loc = R"
proof -
  let ?E = "\<lambda>tp. mptcp_tdm_is_available tp (Some skb) False cl"
  let ?loc0 = "\<lparr>l_iter = 0, l_full_subs = 0, l_choose_sk = None, l_split = R\<rparr>"
  let ?r = "tdm_scan R cl skb tps 0 ?loc0"
  let ?tps = "tdm_reset cl skb tps"
  let ?r2 = "tdm_scan R cl skb ?tps 0 (snd ?r)"
  from ex have "\<forall>tp\<in>set tps. \<not> (?E tp \<and> 0 < sint (quota tp) \<and> sint (quota tp) < sint R)"
    by auto
  then have nf: "\<not> fst ?r" by (simp add: tdm_scan_no_partial)
  from k ek have "\<exists>tp\<in>set tps. ?E tp" by (metis nth_mem)
  with tdm_scan_restart_iff [OF n nf] ex
  have again: "l_iter (snd ?r) \<noteq> 0 \<and> l_iter (snd ?r) = l_full_subs (snd ?r)" by blast
  have idle: "\<forall>tp\<in>set ?tps. ?E tp \<longrightarrow> quota tp = 0"
    by (auto dest: tdm_reset_idle)
  then have "\<forall>tp\<in>set ?tps. \<not> (?E tp \<and> 0 < sint (quota tp) \<and> sint (quota tp) < sint R)"
    by auto
  then have nf2: "\<not> fst ?r2" by (simp add: tdm_scan_no_partial)
  have it: "l_iter (snd ?r) = of_nat (length (filter ?E tps))"
    using tdm_scan_iter [OF nf] by simp
  have it2: "l_iter (snd ?r2) = l_iter (snd ?r) + l_iter (snd ?r)"
    using tdm_scan_iter [OF nf2] it by (simp add: tdm_reset_filter)
  have "filter (\<lambda>tp. ?E tp \<and> sint R \<le> sint (quota tp)) ?tps = []"
    using idle R by (auto simp: filter_empty_conv)
  then have full2: "l_full_subs (snd ?r2) = l_full_subs (snd ?r)"
    using tdm_scan_full_subs [OF nf2] by simp
  from it2 full2 again
  have stop: "\<not> (l_iter (snd ?r2) \<noteq> 0 \<and> l_iter (snd ?r2) = l_full_subs (snd ?r2))"
    by auto
  have second: "tdm_retry R cl skb ?tps (snd ?r) (Suc 0) = Some (?tps, snd ?r2, Suc (Suc 0))"
    using nf2 stop by (auto simp: tdm_retry.simps [of R cl skb ?tps "snd ?r" "Suc 0"] Let_def)
  have first: "tdm_retry R cl skb tps ?loc0 0 = tdm_retry R cl skb ?tps (snd ?r) (Suc 0)"
    using nf again by (auto simp: tdm_retry.simps [of R cl skb tps ?loc0 0] Let_def)
  have k2: "k < length ?tps" using k by simp
  have idle_k: "?E (?tps ! k) \<and> quota (?tps ! k) = 0"
    using k ek by (simp add: tdm_reset_nth)
  have last2: "\<forall>j. k < j \<and> j < length ?tps \<longrightarrow> \<not> (?E (?tps ! j) \<and> quota (?tps ! j) = 0)"
    using last by (auto simp: tdm_reset_nth)
  from tdm_scan_last_idle [OF k2 idle_k last2 nf2] first second show ?thesis by simp
qed

section \<open>Restarts with a round size that is not positive\<close>

lemma tdm_reset_idle_id:
  "\<forall>tp\<in>set tps. mptcp_tdm_is_available tp (Some skb) False cl \<longrightarrow> quota tp = 0 \<Longrightarrow>
   tdm_reset cl skb tps = tps"
  unfolding tdm_reset_def by (rule map_idI) auto

lemma tdm_scan_nonpos:
  assumes "sint R \<le> 0"
  shows "\<not> fst (tdm_scan R cl skb tps i loc)"
proof -
  from assms have "\<forall>tp\<in>set tps. \<not> (mptcp_tdm_is_available tp (Some skb) False cl \<and>
       0 < sint (quota tp) \<and> sint (quota tp) < sint R)"
    by auto
  then show ?thesis by (simp add: tdm_scan_no_partial)
qed

lemma tdm_retry_nonpos_loop:
  assumes R: "sint R \<le> 0"
    and idle: "\<forall>tp\<in>set tps. mptcp_tdm_is_available tp (Some skb) False cl \<longrightarrow> quota tp = 0"
    and it: "l_iter loc = of_nat (k * length (filter (\<lambda>tp. mptcp_tdm_is_available tp (Some skb) False cl) tps))"
    and fu: "l_full_subs loc = l_iter loc"
    and k: "k < 256"
  shows "\<exists>loc' p'. tdm_retry R cl skb tps loc p = Some (tps, loc', p') \<and> p' \<le> p + (256 - k) \<and>
     (\<forall>j. j < length tps \<and>
        mptcp_tdm_is_available (tps ! j) (Some skb) False cl \<and> quota (tps ! j) = 0 \<and>
        (\<forall>j'. j < j' \<and> j' < length tps \<longrightarrow>
           \<not> (mptcp_tdm_is_available (tps ! j') (Some skb) False cl \<and> quota (tps ! j') = 0)) \<longrightarrow>
        l_choose_sk loc' = Some j \<and> l_split loc' = R)"
  using it fu k
proof (induction "256 - k" arbitrary: k loc p)
  case 0
  then show ?case by simp
next
  case (Suc m)
  let ?E = "\<lambda>tp. mptcp_tdm_is_available tp (Some skb) False cl"
  let ?n = "length (filter ?E tps)"
  let ?r = "tdm_scan R cl skb tps 0 loc"
  let ?last = "\<lambda>j. j < length tps \<and> ?E (tps ! j) \<and> quota (tps ! j) = 0 \<and>
        (\<forall>j'. j < j' \<and> j' < length tps \<longrightarrow> \<not> (?E (tps ! j') \<and> quota (tps ! j') = 0))"
  have nf: "\<not> fst ?r" by (rule tdm_scan_nonpos [OF R])
  have ch: "l_choose_sk (snd ?r) = Some j \<and> l_split (snd ?r) = R" if "?last j" for j
  proof -
    from that have j: "j < length tps" and ej: "?E (tps ! j) \<and> quota (tps ! j) = 0"
      and last: "\<forall>j'. j < j' \<and> j' < length tps \<longrightarrow> \<not> (?E (tps ! j') \<and> quota (tps ! j') = 0)"
      by blast+
    from tdm_scan_last_idle [OF j ej last nf] show ?thesis by simp
  qed
  have "filter (\<lambda>tp. ?E tp \<and> sint R \<le> sint (quota tp)) tps = filter ?E tps"
    using idle R by (intro filter_cong) auto
  with tdm_scan_full_subs [OF nf]
  have fu': "l_full_subs (snd ?r) = l_full_subs loc + of_nat ?n" by simp
  from tdm_scan_iter [OF nf] have it': "l_iter (snd ?r) = l_iter loc + of_nat ?n" .
  with Suc.prems(1) have it'': "l_iter (snd ?r) = of_nat (Suc k * ?n)" by simp
  from it' fu' Suc.prems(2) have eq: "l_full_subs (snd ?r) = l_iter (snd ?r)" by simp
  show ?case
  proof (cases "l_iter (snd ?r) = 0")
    case True
    with nf have "tdm_retry R cl skb tps loc p = Some (tps, snd ?r, Suc p)"
      by (simp add: tdm_retry.simps [of R cl skb tps loc p] Let_def)
    with Suc.prems(3) ch show ?thesis by simp
  next
    case False
    have "Suc k \<noteq> 256"
    proof
      assume "Suc k = 256"
      with it'' have "l_iter (snd ?r) = (of_nat (256 * ?n) :: u8)" by simp
      also have "\<dots> = of_nat 256 * of_nat ?n" by (simp only: of_nat_mult)
      also have "(of_nat 256 :: u8) = 0" using of_nat_2p [where 'a = 8] by simp
      finally show False using False by simp
    qed
    with Suc.prems(3) have k': "Suc k < 256" by simp
    from Suc.hyps(2) have m: "m = 256 - Suc k" by simp
    from Suc.hyps(1) [OF m it'' eq k', of "Suc p"] obtain loc' p'
      where run: "tdm_retry R cl skb tps (snd ?r) (Suc p) = Some (tps, loc', p')"
        and p': "p' \<le> Suc p + (256 - Suc k)"
        and c': "\<forall>j. ?last j \<longrightarrow> l_choose_sk loc' = Some j \<and> l_split loc' = R"
      by blast
    from nf False eq tdm_reset_idle_id [OF idle]
    have "tdm_retry R cl skb tps loc p = tdm_retry R cl skb tps (snd ?r) (Suc p)"
      by (simp add: tdm_retry.simps [of R cl skb tps loc p] Let_def)
    moreover from p' k' have "p' \<le> p + (256 - k)" by simp
    ultimately show ?thesis using run c' by simp
  qed
qed

text \<open>The restart of the round for any round size: the subflows that pass the test
  have their quota cleared, and the last of them is chosen.\<close>

lemma tdm_retry_restart:
  assumes n: "length tps < 256" and k: "k < length tps"
    and ex: "\<forall>tp\<in>set tps. mptcp_tdm_is_available tp (Some skb) False cl \<longrightarrow> sint R \<le> sint (quota tp)"
    and ek: "mptcp_tdm_is_available (tps ! k) (Some skb) False cl"
    and last: "\<forall>j. k < j \<and> j < length tps \<longrightarrow> \<not> mptcp_tdm_is_available (tps ! j) (Some skb) False cl"
  shows "\<exists>loc p. tdm_retry R cl skb tps \<lparr>l_iter = 0, l_full_subs = 0, l_choose_sk = None, l_split = R\<rparr> 0 =
      Some (tdm_reset cl skb tps, loc, p) \<and> l_choose_sk loc = Some k \<and> l_split loc = R"
proof (cases "0 < sint R")
  case True
  from tdm_retry_exhausted [OF n True k ex ek last] show ?thesis by blast
next
  case False
  then have R: "sint R \<le> 0" by simp
  let ?E = "\<lambda>tp. mptcp_tdm_is_available tp (Some skb) False cl"
  let ?loc0 = "\<lparr>l_iter = 0, l_full_subs = 0, l_choose_sk = None, l_split = R\<rparr>"
  let ?r = "tdm_scan R cl skb tps 0 ?loc0"
  let ?tps = "tdm_reset cl skb tps"
  have nf: "\<not> fst ?r" by (rule tdm_scan_nonpos [OF R])
  from k ek have "\<exists>tp\<in>set tps. ?E tp" by (metis nth_mem)
  with tdm_scan_restart_iff [OF n nf] ex
  have again: "l_iter (snd ?r) \<noteq> 0 \<and> l_iter (snd ?r) = l_full_subs (snd ?r)" by blast
  with nf have first: "tdm_retry R cl skb tps ?loc0 0 = tdm_retry R cl skb ?tps (snd ?r) (Suc 0)"
    by (auto simp: tdm_retry.simps [of R cl skb tps ?loc0 0] Let_def)
  have idle: "\<forall>tp\<in>set ?tps. ?E tp \<longrightarrow> quota tp = 0"
    by (auto dest: tdm_reset_idle)
  from tdm_scan_iter [OF nf]
  have it: "l_iter (snd ?r) = of_nat (Suc 0 * length (filter ?E ?tps))"
    by (simp add: tdm_reset_filter)
  from again have fu: "l_full_subs (snd ?r) = l_iter (snd ?r)" by simp
  have "k < length ?tps \<and> ?E (?tps ! k) \<and> quota (?tps ! k) = 0 \<and>
      (\<forall>j. k < j \<and> j < length ?tps \<longrightarrow> \<not> (?E (?tps ! j) \<and> quota (?tps ! j) = 0))"
    using k ek last by (auto simp: tdm_reset_nth)
  with tdm_retry_nonpos_loop [OF R idle it fu, of "Suc 0"] first
  show ?thesis by auto
qed

section \<open>Machine arithmetic of the quota and of the byte limit\<close>

lemma nat_ceiling_div:
  fixes a b :: nat
  assumes "0 < b"
  shows "int ((a + b - 1) div b) = \<lceil>real a / real b\<rceil>"
proof -
  let ?z = "(a + b - 1) div b"
  have m: "a + b - 1 = ?z * b + (a + b - 1) mod b" by simp
  have r: "(a + b - 1) mod b < b" using assms by simp
  from m r assms have up: "a \<le> ?z * b" by arith
  from m have low: "?z * b < a + b" using assms by arith
  from up have "real a \<le> real (?z * b)" by (rule of_nat_mono)
  then have 1: "real a / real b \<le> of_int (int ?z)"
    using assms by (simp add: pos_divide_le_eq)
  from low have "real (?z * b) < real (a + b)" by (simp only: of_nat_less_iff)
  then have "(real ?z - 1) * real b < real a" by (simp add: algebra_simps)
  then have 2: "of_int (int ?z) - 1 < real a / real b"
    using assms by (simp add: pos_less_divide_eq)
  from ceiling_unique [OF 2 1] show ?thesis by simp
qed

lemma unat_DIV_ROUND_UP:
  assumes "d \<noteq> 0" and "unat n + unat d \<le> 2 ^ 32"
  shows "unat (DIV_ROUND_UP n d) = (unat n + unat d - 1) div unat d"
proof -
  from assms(1) have d: "0 < unat d" by (simp add: unat_gt_0)
  then have "(of_nat (unat n + unat d - 1) :: u32) = n + d - 1"
    by (simp add: of_nat_diff)
  then have "unat (n + d - 1) = unat (of_nat (unat n + unat d - 1) :: u32)" by simp
  also have "\<dots> = (unat n + unat d - 1) mod 2 ^ 32"
    by (simp only: unat_of_nat) simp
  also have "\<dots> = unat n + unat d - 1"
    using assms(2) d by simp
  finally show ?thesis by (simp add: DIV_ROUND_UP_def unat_div)
qed

lemma sint_add_small:
  fixes q w :: c_int
  assumes "0 \<le> sint q" and "sint q + int (unat w) < 2 ^ 31"
  shows "sint (q + w) = sint q + int (unat w)"
proof -
  have "q + w = word_of_int (sint q + int (unat w))" by simp
  then have "sint (q + w) = signed_take_bit 31 (sint q + int (unat w))"
    by (simp only: sint_sbintrunc') simp
  also have "\<dots> = sint q + int (unat w)"
    using assms uint_ge_0 [of w] by (intro signed_take_bit_int_eq_self) linarith+
  finally show ?thesis .
qed

lemma div_round_up_le:
  fixes a m :: nat
  assumes "0 < m" and "0 < a"
  shows "(a + m - 1) div m \<le> a"
proof -
  from assms have "1 * (m - 1) \<le> a * (m - 1)" by (intro mult_le_mono1) simp
  then have "a + m - 1 \<le> a + a * (m - 1)" using assms by arith
  also have "\<dots> = a * m" using assms by (cases m) simp_all
  finally have "(a + m - 1) div m \<le> (a * m) div m" by (rule div_le_mono)
  with assms show ?thesis by simp
qed

lemma quota_step_int:
  fixes q R len mss :: u32
  assumes q0: "0 \<le> sint q" and qR: "sint q < max (sint R) 1"
    and range: "max (sint R) 1 + int (unat len) \<le> 2 ^ 31"
    and nofault: "\<not> (mss < len \<and> mss = 0)"
  shows "sint (q + (if mss < len then DIV_ROUND_UP len mss else 1)) =
         sint q + (if mss < len then \<lceil>real (unat len) / real (unat mss)\<rceil> else 1)"
proof (cases "mss < len")
  case False
  have "max (sint R) 1 < 2 ^ 31" using sint_lt [of R] by simp
  with qR have "sint q + int (unat (1 :: u32)) < 2 ^ 31" by simp
  from sint_add_small [OF q0 this] False show ?thesis by simp
next
  case True
  with nofault have m0: "mss \<noteq> 0" by simp
  then have m: "0 < unat mss" by (simp add: unat_gt_0)
  from True have lt: "unat mss < unat len" by (simp add: word_less_nat_alt)
  with m have l: "0 < unat len" by simp
  from q0 qR range have "int (unat len) < int (2 ^ 31)" by simp
  then have lb: "unat len < 2 ^ 31" by (simp only: of_nat_less_iff)
  with lt have "unat len + unat mss \<le> 2 ^ 32" by simp
  from unat_DIV_ROUND_UP [OF m0 this]
  have u: "unat (DIV_ROUND_UP len mss) = (unat len + unat mss - 1) div unat mss" .
  with div_round_up_le [OF m l] have "unat (DIV_ROUND_UP len mss) \<le> unat len" by simp
  with qR range have "sint q + int (unat (DIV_ROUND_UP len mss)) < 2 ^ 31" by linarith
  from sint_add_small [OF q0 this] u nat_ceiling_div [OF m, of "unat len"] True
  show ?thesis by simp
qed

lemma byte_limit_value:
  fixes q R mss :: u32
  assumes "0 \<le> sint q" and "sint q < sint R" and "(sint R - sint q) * uint mss < 2 ^ 32"
  shows "uint ((R - q) * mss) = (sint R - sint q) * uint mss"
proof -
  have "(R - q) * mss = word_of_int ((sint R - sint q) * uint mss)" by simp
  then have "uint ((R - q) * mss) = take_bit 32 ((sint R - sint q) * uint mss)"
    by (simp only: uint_word_of_int_eq) simp
  also have "\<dots> = (sint R - sint q) * uint mss"
    using assms by (intro take_bit_int_eq_self) simp_all
  finally show ?thesis .
qed

section \<open>Which subflow the quota-based selection takes\<close>

lemma next_segment_quota_branch:
  assumes "dunder_mptcp_tdm_next_segment meta = (Some skb, 0)"
    and "tdm_retry R cl skb (subflows meta)
       \<lparr>l_iter = 0, l_full_subs = 0, l_choose_sk = None, l_split = R\<rparr> 0 = Some (tps, loc, p)"
  shows "mptcp_tdm_next_segment R cl meta subsk0 =
    Some (map_sum id (\<lambda>(tps', dec). (meta\<lparr>subflows := tps'\<rparr>, dec))
            (tdm_found skb tps (l_choose_sk loc) (l_split loc) subsk0))"
  using assms by (simp add: mptcp_tdm_next_segment_def)

text \<open>
  C7: the candidate is the head of the send queue (reinject flag 0) and the connection
  has fewer than 256 subflows (a path index has 8 bits); the round size is any 32-bit
  \<^verbatim>\<open>int\<close>.
  \<open>avail\<close> is the test of the scan (no zero-window test, congestion-window test as the
  module parameter says). \<open>outcome tps' split\<close> is what the code under \<^verbatim>\<open>found\<close> does
  with subflow \<open>k\<close> chosen: no segment when the subflow fails the check before the return,
  a fault for a division by an \<^verbatim>\<open>mss_now\<close> of 0, and otherwise the segment on subflow
  \<open>k\<close> with byte limit \<open>split * mss_now\<close>, computed in 32 bits.
  \<^item> If subflow \<open>k\<close> is the first available one with \<open>0 < quota < num_segments\<close>, it is
    chosen with \<open>split = num_segments - quota\<close>.
  \<^item> If no available subflow is partly used and \<open>k\<close> is the last available one with quota
    0, it is chosen with \<open>split = num_segments\<close>. (With a round size that is not positive
    a quota of 0 counts as used up, so there this needs an available subflow whose quota
    is below the round size.)
  \<^item> If every available subflow has used its quota and \<open>k\<close> is the last available one,
    the round is restarted and \<open>k\<close>, now with quota 0, is chosen with
    \<open>split = num_segments\<close>.
  \<^item> The 32-bit product is the product of the integers when that is below \<open>2 ^ 32\<close>.
\<close>

theorem next_segment_selection:
  assumes cand: "dunder_mptcp_tdm_next_segment meta = (Some skb, 0)"
    and n: "length (subflows meta) < 256"
    and k: "k < length (subflows meta)"
  shows "let tps = subflows meta;
      avail = (\<lambda>tp. mptcp_tdm_is_available tp (Some skb) False cwnd_limited);
      partial = (\<lambda>tp. avail tp \<and> 0 < sint (quota tp) \<and> sint (quota tp) < sint num_segments);
      idle = (\<lambda>tp. avail tp \<and> quota tp = 0);
      outcome = (\<lambda>tps' split.
        if \<not> mptcp_tdm_is_available (tps' ! k) (Some skb) False True
        then Inr (meta\<lparr>subflows := tps'\<rparr>,
                  \<lparr>d_skb = None, d_reinject = 0, d_subsk = subsk0, d_limit = 0\<rparr>)
        else if current_mss (tps' ! k) < skb_len skb \<and> current_mss (tps' ! k) = 0
        then Inl Divide_Error
        else Inr (meta\<lparr>subflows := tps'[k := (tps' ! k)\<lparr>quota := quota (tps' ! k) +
                      (if current_mss (tps' ! k) < skb_len skb
                       then DIV_ROUND_UP (skb_len skb) (current_mss (tps' ! k)) else 1)\<rparr>]\<rparr>,
                  \<lparr>d_skb = Some skb, d_reinject = 0, d_subsk = Some k,
                   d_limit = split * current_mss (tps' ! k)\<rparr>))
    in (partial (tps ! k) \<and> (\<forall>j<k. \<not> partial (tps ! j)) \<longrightarrow>
          mptcp_tdm_next_segment num_segments cwnd_limited meta subsk0 =
            Some (outcome tps (num_segments - quota (tps ! k)))) \<and>
       ((\<forall>tp\<in>set tps. \<not> partial tp) \<and>
          (0 < sint num_segments \<or>
           (\<exists>tp\<in>set tps. avail tp \<and> sint (quota tp) < sint num_segments)) \<and>
          idle (tps ! k) \<and> (\<forall>j. k < j \<and> j < length tps \<longrightarrow> \<not> idle (tps ! j)) \<longrightarrow>
          mptcp_tdm_next_segment num_segments cwnd_limited meta subsk0 =
            Some (outcome tps num_segments)) \<and>
       ((\<forall>tp\<in>set tps. avail tp \<longrightarrow> sint num_segments \<le> sint (quota tp)) \<and> avail (tps ! k) \<and>
          (\<forall>j. k < j \<and> j < length tps \<longrightarrow> \<not> avail (tps ! j)) \<longrightarrow>
          mptcp_tdm_next_segment num_segments cwnd_limited meta subsk0 =
            Some (outcome (tdm_reset cwnd_limited skb tps) num_segments)) \<and>
       (\<forall>q mss :: u32. 0 \<le> sint q \<and> sint q < sint num_segments \<and>
          (sint num_segments - sint q) * uint mss < 2 ^ 32 \<longrightarrow>
          uint ((num_segments - q) * mss) = (sint num_segments - sint q) * uint mss)"
proof -
  let ?tps = "subflows meta"
  let ?avail = "\<lambda>tp. mptcp_tdm_is_available tp (Some skb) False cwnd_limited"
  let ?partial = "\<lambda>tp. ?avail tp \<and> 0 < sint (quota tp) \<and> sint (quota tp) < sint num_segments"
  let ?idle = "\<lambda>tp. ?avail tp \<and> quota tp = 0"
  have a: "mptcp_tdm_next_segment num_segments cwnd_limited meta subsk0 =
      Some (map_sum id (\<lambda>(tps', dec). (meta\<lparr>subflows := tps'\<rparr>, dec))
         (tdm_found skb ?tps (Some k) (num_segments - quota (?tps ! k)) subsk0))"
    if "?partial (?tps ! k)" "\<forall>j<k. \<not> ?partial (?tps ! j)"
    using tdm_retry_first_partial [OF n k that] next_segment_quota_branch [OF cand]
    by force
  have b: "mptcp_tdm_next_segment num_segments cwnd_limited meta subsk0 =
      Some (map_sum id (\<lambda>(tps', dec). (meta\<lparr>subflows := tps'\<rparr>, dec))
         (tdm_found skb ?tps (Some k) num_segments subsk0))"
    if "\<forall>tp\<in>set ?tps. \<not> ?partial tp"
      "0 < sint num_segments \<or> (\<exists>tp\<in>set ?tps. ?avail tp \<and> sint (quota tp) < sint num_segments)"
      "?idle (?tps ! k)" "\<forall>j. k < j \<and> j < length ?tps \<longrightarrow> \<not> ?idle (?tps ! j)"
    using tdm_retry_last_idle [OF n k that] next_segment_quota_branch [OF cand]
    by force
  have c: "mptcp_tdm_next_segment num_segments cwnd_limited meta subsk0 =
      Some (map_sum id (\<lambda>(tps', dec). (meta\<lparr>subflows := tps'\<rparr>, dec))
         (tdm_found skb (tdm_reset cwnd_limited skb ?tps) (Some k) num_segments subsk0))"
    if "\<forall>tp\<in>set ?tps. ?avail tp \<longrightarrow> sint num_segments \<le> sint (quota tp)" "?avail (?tps ! k)"
      "\<forall>j. k < j \<and> j < length ?tps \<longrightarrow> \<not> ?avail (?tps ! j)"
    using tdm_retry_restart [OF n k that] next_segment_quota_branch [OF cand]
    by force
  show ?thesis
    unfolding Let_def tdm_found_outcome [symmetric]
    using a b c byte_limit_value [of _ num_segments] by blast
qed

theorem next_segment_selection_witness:
  "dunder_mptcp_tdm_next_segment (ex_meta [ex_sub2, ex_sub\<lparr>quota := 9990\<rparr>, ex_sub\<lparr>quota := 5\<rparr>])
     = (Some ex_skb, 0) \<and>
   0 < sint (10000 :: c_int) \<and>
   mptcp_tdm_is_available ex_sub2 (Some ex_skb) False True \<and> quota ex_sub2 = 0 \<and>
   mptcp_tdm_is_available (ex_sub\<lparr>quota := 9990\<rparr>) (Some ex_skb) False True \<and>
   mptcp_tdm_next_segment 10000 True
       (ex_meta [ex_sub2, ex_sub\<lparr>quota := 9990\<rparr>, ex_sub\<lparr>quota := 5\<rparr>]) None =
     Some (Inr (ex_meta [ex_sub2, ex_sub\<lparr>quota := 9991\<rparr>, ex_sub\<lparr>quota := 5\<rparr>],
           \<lparr>d_skb = Some ex_skb, d_reinject = 0, d_subsk = Some 1, d_limit = 14600\<rparr>))"
proof -
  let ?m = "ex_meta [ex_sub2, ex_sub\<lparr>quota := 9990\<rparr>, ex_sub\<lparr>quota := 5\<rparr>]"
  have cand: "dunder_mptcp_tdm_next_segment ?m = (Some ex_skb, 0)"
    by (simp add: dunder_mptcp_tdm_next_segment_def ex_meta_def)
  have R: "0 < sint (10000 :: c_int)" by simp
  have n: "length (subflows ?m) < 256" and k: "1 < length (subflows ?m)"
    by (simp_all add: ex_meta_def)
  have a2: "mptcp_tdm_is_available ex_sub2 (Some ex_skb) False True" "quota ex_sub2 = 0"
    and a1: "mptcp_tdm_is_available (ex_sub\<lparr>quota := 9990\<rparr>) (Some ex_skb) False True"
    by (simp_all add: mptcp_tdm_is_available_def ex_sub_def ex_sub2_def)
  have first: "\<forall>j<1. \<not> (mptcp_tdm_is_available (subflows ?m ! j) (Some ex_skb) False True \<and>
      0 < sint (quota (subflows ?m ! j)) \<and> sint (quota (subflows ?m ! j)) < sint (10000 :: c_int))"
    using a2 by (simp add: ex_meta_def)
  have part: "mptcp_tdm_is_available (subflows ?m ! 1) (Some ex_skb) False True \<and>
      0 < sint (quota (subflows ?m ! 1)) \<and> sint (quota (subflows ?m ! 1)) < sint (10000 :: c_int)"
    using a1 by (simp add: ex_meta_def)
  from next_segment_selection [OF cand n k, of True 10000 None] part first
  have "mptcp_tdm_next_segment 10000 True ?m None =
     Some (Inr (ex_meta [ex_sub2, ex_sub\<lparr>quota := 9991\<rparr>, ex_sub\<lparr>quota := 5\<rparr>],
           \<lparr>d_skb = Some ex_skb, d_reinject = 0, d_subsk = Some 1, d_limit = 14600\<rparr>))"
    by (simp add: Let_def ex_meta_def ex_sub_def ex_skb_def)
  with cand R a1 a2 show ?thesis by simp
qed

section \<open>How a call changes the quotas\<close>

lemma quota_after_found:
  assumes f: "map_sum id (\<lambda>(tps', dec). (meta\<lparr>subflows := tps'\<rparr>, dec))
                (tdm_found skb tps (Some k) split subsk0) = Inr (meta', d)"
    and k: "k < length tps" and i: "i < length tps"
  shows "length (subflows meta') = length tps \<and> d_reinject d = 0 \<and>
    (d_skb d = None \<or> d_skb d = Some skb \<and> d_subsk d = Some k \<and>
        \<not> (current_mss (tps ! k) < skb_len skb \<and> current_mss (tps ! k) = 0)) \<and>
    subflows meta' ! i =
      (if d_skb d \<noteq> None \<and> i = k
       then (tps ! i)\<lparr>quota := quota (tps ! i) +
              (if current_mss (tps ! i) < skb_len skb
               then DIV_ROUND_UP (skb_len skb) (current_mss (tps ! i)) else 1)\<rparr>
       else tps ! i)"
proof (cases "mptcp_tdm_is_available (tps ! k) (Some skb) False True")
  case False
  with f have "meta' = meta\<lparr>subflows := tps\<rparr>"
    and "d = \<lparr>d_skb = None, d_reinject = 0, d_subsk = subsk0, d_limit = 0\<rparr>"
    unfolding tdm_found_outcome by simp_all
  then show ?thesis by simp
next
  case avail: True
  show ?thesis
  proof (cases "current_mss (tps ! k) < skb_len skb \<and> current_mss (tps ! k) = 0")
    case True
    with avail have "map_sum id (\<lambda>(tps', dec). (meta\<lparr>subflows := tps'\<rparr>, dec))
                (tdm_found skb tps (Some k) split subsk0) = Inl Divide_Error"
      unfolding tdm_found_outcome by auto
    with f show ?thesis by simp
  next
    case False
    with f avail have m: "meta' = meta\<lparr>subflows := tps[k := (tps ! k)\<lparr>quota := quota (tps ! k) +
                   (if current_mss (tps ! k) < skb_len skb
                    then DIV_ROUND_UP (skb_len skb) (current_mss (tps ! k)) else 1)\<rparr>]\<rparr>"
      and d: "d = \<lparr>d_skb = Some skb, d_reinject = 0, d_subsk = Some k,
                d_limit = split * current_mss (tps ! k)\<rparr>"
      unfolding tdm_found_outcome by simp_all
    from m k i have "subflows meta' ! i = (if i = k then (tps ! i)\<lparr>quota := quota (tps ! i) +
              (if current_mss (tps ! i) < skb_len skb
               then DIV_ROUND_UP (skb_len skb) (current_mss (tps ! i)) else 1)\<rparr> else tps ! i)"
      by (simp add: nth_list_update)
    moreover from m have "length (subflows meta') = length tps" by simp
    ultimately show ?thesis using d False by simp
  qed
qed


lemma quota_update_chosen:
  assumes found: "map_sum id (\<lambda>(tps', dec). (meta\<lparr>subflows := tps'\<rparr>, dec))
                (tdm_found skb tps (Some k) split subsk0) = Inr (meta', d)"
    and k: "k < length tps" and i: "i < length tps"
    and ne: "\<not> (\<forall>x\<in>set tps. mptcp_tdm_is_available x (Some skb) False cl \<longrightarrow>
                  sint R \<le> sint (quota x))"
    and q0: "0 \<le> sint (quota (tps ! k))" and qR: "sint (quota (tps ! k)) < max (sint R) 1"
  shows "length (subflows meta') = length tps \<and> d_reinject d = 0 \<and>
     (d_skb d = None \<or> d_skb d = Some skb) \<and>
     \<not> (mptcp_tdm_is_available (tps ! i) (Some skb) False cl \<and>
        (\<forall>x\<in>set tps. mptcp_tdm_is_available x (Some skb) False cl \<longrightarrow> sint R \<le> sint (quota x))) \<and>
     subflows meta' ! i = (tps ! i)\<lparr>quota := quota (tps ! i) +
        (if d_skb d \<noteq> None \<and> d_subsk d = Some i
         then (if current_mss (tps ! i) < skb_len skb
               then DIV_ROUND_UP (skb_len skb) (current_mss (tps ! i)) else 1)
         else 0)\<rparr> \<and>
     (d_skb d \<noteq> None \<and> d_subsk d = Some i \<longrightarrow>
        0 \<le> sint (quota (tps ! i)) \<and> sint (quota (tps ! i)) < max (sint R) 1 \<and>
        \<not> (current_mss (tps ! i) < skb_len skb \<and> current_mss (tps ! i) = 0))"
proof -
  let ?sel = "d_skb d \<noteq> None \<and> d_subsk d = Some i"
  let ?inc = "if current_mss (tps ! i) < skb_len skb
               then DIV_ROUND_UP (skb_len skb) (current_mss (tps ! i)) else 1"
  from quota_after_found [OF found k i]
  have a1: "length (subflows meta') = length tps" and a2: "d_reinject d = 0"
    and a3: "d_skb d = None \<or> d_skb d = Some skb \<and> d_subsk d = Some k \<and>
        \<not> (current_mss (tps ! k) < skb_len skb \<and> current_mss (tps ! k) = 0)"
    and a4: "subflows meta' ! i =
      (if d_skb d \<noteq> None \<and> i = k then (tps ! i)\<lparr>quota := quota (tps ! i) + ?inc\<rparr>
       else tps ! i)"
    by blast+
  from ne have c4: "\<not> (mptcp_tdm_is_available (tps ! i) (Some skb) False cl \<and>
        (\<forall>x\<in>set tps. mptcp_tdm_is_available x (Some skb) False cl \<longrightarrow> sint R \<le> sint (quota x)))"
    by blast
  from a3 have c3: "d_skb d = None \<or> d_skb d = Some skb" by blast
  have sel_k: "i = k" if ?sel using that a3 by auto
  have c6: "?sel \<longrightarrow> 0 \<le> sint (quota (tps ! i)) \<and> sint (quota (tps ! i)) < max (sint R) 1 \<and>
        \<not> (current_mss (tps ! i) < skb_len skb \<and> current_mss (tps ! i) = 0)"
  proof
    assume s: ?sel
    from sel_k [OF s] s a3 q0 qR show "0 \<le> sint (quota (tps ! i)) \<and>
        sint (quota (tps ! i)) < max (sint R) 1 \<and>
        \<not> (current_mss (tps ! i) < skb_len skb \<and> current_mss (tps ! i) = 0)"
      by auto
  qed
  have c5: "subflows meta' ! i = (tps ! i)\<lparr>quota := quota (tps ! i) + (if ?sel then ?inc else 0)\<rparr>"
  proof (cases ?sel)
    case True
    from sel_k [OF True] True a4
    have "subflows meta' ! i = (tps ! i)\<lparr>quota := quota (tps ! i) + ?inc\<rparr>"
      by simp
    with True show ?thesis by (simp only: if_True simp_thms)
  next
    case False
    with a3 a4 have "subflows meta' ! i = tps ! i"
      by (cases "d_skb d = None") simp_all
    then have "subflows meta' ! i = (tps ! i)\<lparr>quota := quota (tps ! i) + 0\<rparr>" by simp
    with False show ?thesis by (simp only: if_False simp_thms)
  qed
  show ?thesis by (intro conjI a1 a2 c3 c4 c5 c6)
qed


lemma quota_update_restart:
  assumes found: "map_sum id (\<lambda>(tps', dec). (meta\<lparr>subflows := tps'\<rparr>, dec))
                (tdm_found skb (tdm_reset cl skb tps) (Some k) split subsk0) = Inr (meta', d)"
    and k: "k < length tps" and i: "i < length tps"
    and ek: "mptcp_tdm_is_available (tps ! k) (Some skb) False cl"
  shows "length (subflows meta') = length tps \<and> d_reinject d = 0 \<and>
     (d_skb d = None \<or> d_skb d = Some skb) \<and>
     subflows meta' ! i = (tps ! i)\<lparr>quota :=
        (if mptcp_tdm_is_available (tps ! i) (Some skb) False cl then 0 else quota (tps ! i)) +
        (if d_skb d \<noteq> None \<and> d_subsk d = Some i
         then (if current_mss (tps ! i) < skb_len skb
               then DIV_ROUND_UP (skb_len skb) (current_mss (tps ! i)) else 1)
         else 0)\<rparr> \<and>
     (d_skb d \<noteq> None \<and> d_subsk d = Some i \<longrightarrow>
        mptcp_tdm_is_available (tps ! i) (Some skb) False cl \<and>
        \<not> (current_mss (tps ! i) < skb_len skb \<and> current_mss (tps ! i) = 0))"
proof -
  let ?tps = "tdm_reset cl skb tps"
  let ?sel = "d_skb d \<noteq> None \<and> d_subsk d = Some i"
  let ?E = "\<lambda>tp. mptcp_tdm_is_available tp (Some skb) False cl"
  let ?inc = "if current_mss (tps ! i) < skb_len skb
               then DIV_ROUND_UP (skb_len skb) (current_mss (tps ! i)) else 1"
  from k i have k': "k < length ?tps" and i': "i < length ?tps" by simp_all
  have nk: "?tps ! k = (tps ! k)\<lparr>quota := 0\<rparr>"
    using k ek by (simp add: tdm_reset_nth)
  have ni: "?tps ! i = (if ?E (tps ! i) then (tps ! i)\<lparr>quota := 0\<rparr> else tps ! i)"
    using i by (simp add: tdm_reset_nth)
  from quota_after_found [OF found k' i']
  have a1: "length (subflows meta') = length tps" and a2: "d_reinject d = 0"
    and a3: "d_skb d = None \<or> d_skb d = Some skb \<and> d_subsk d = Some k \<and>
        \<not> (current_mss (?tps ! k) < skb_len skb \<and> current_mss (?tps ! k) = 0)"
    and a4: "subflows meta' ! i =
      (if d_skb d \<noteq> None \<and> i = k
       then (?tps ! i)\<lparr>quota := quota (?tps ! i) +
              (if current_mss (?tps ! i) < skb_len skb
               then DIV_ROUND_UP (skb_len skb) (current_mss (?tps ! i)) else 1)\<rparr>
       else ?tps ! i)"
    by simp_all
  from a3 have c3: "d_skb d = None \<or> d_skb d = Some skb" by blast
  have sel_k: "i = k" if ?sel using that a3 by auto
  have c6: "?sel \<longrightarrow> ?E (tps ! i) \<and>
        \<not> (current_mss (tps ! i) < skb_len skb \<and> current_mss (tps ! i) = 0)"
  proof
    assume s: ?sel
    from sel_k [OF s] s a3 nk ek show "?E (tps ! i) \<and>
        \<not> (current_mss (tps ! i) < skb_len skb \<and> current_mss (tps ! i) = 0)"
      by auto
  qed
  have c5: "subflows meta' ! i = (tps ! i)\<lparr>quota :=
        (if ?E (tps ! i) then 0 else quota (tps ! i)) + (if ?sel then ?inc else 0)\<rparr>"
  proof (cases ?sel)
    case True
    note ik = sel_k [OF True]
    from ik True a4 nk
    have "subflows meta' ! i = (tps ! i)\<lparr>quota := 0 + ?inc\<rparr>"
      by simp
    with ik ek have "subflows meta' ! i = (tps ! i)\<lparr>quota :=
        (if ?E (tps ! i) then 0 else quota (tps ! i)) + ?inc\<rparr>"
      by simp
    with True show ?thesis by (simp only: if_True simp_thms)
  next
    case False
    with a3 a4 have "subflows meta' ! i = ?tps ! i"
      by (cases "d_skb d = None") simp_all
    with ni have "subflows meta' ! i = (tps ! i)\<lparr>quota :=
        (if ?E (tps ! i) then 0 else quota (tps ! i)) + 0\<rparr>"
      by (cases "?E (tps ! i)") simp_all
    with False show ?thesis by (simp only: if_False simp_thms)
  qed
  show ?thesis by (intro conjI a1 a2 c3 c5 c6)
qed


lemma quota_branch_update:
  assumes cand: "dunder_mptcp_tdm_next_segment meta = (Some skb, 0)"
    and ret: "mptcp_tdm_next_segment R cl meta subsk0 = Some (Inr (meta', d))"
    and n: "length (subflows meta) < 256" and i: "i < length (subflows meta)"
    and base: "base = (if mptcp_tdm_is_available (subflows meta ! i) (Some skb) False cl \<and>
          (\<forall>x\<in>set (subflows meta). mptcp_tdm_is_available x (Some skb) False cl \<longrightarrow>
              sint R \<le> sint (quota x))
        then 0 else quota (subflows meta ! i))"
  shows "length (subflows meta') = length (subflows meta) \<and> d_reinject d = 0 \<and>
     (d_skb d = None \<or> d_skb d = Some skb) \<and>
     subflows meta' ! i = (subflows meta ! i)\<lparr>quota := base +
        (if d_skb d \<noteq> None \<and> d_subsk d = Some i
         then (if current_mss (subflows meta ! i) < skb_len skb
               then DIV_ROUND_UP (skb_len skb) (current_mss (subflows meta ! i)) else 1)
         else 0)\<rparr> \<and>
     (d_skb d \<noteq> None \<and> d_subsk d = Some i \<longrightarrow>
        0 \<le> sint base \<and> sint base < max (sint R) 1 \<and>
        \<not> (current_mss (subflows meta ! i) < skb_len skb \<and> current_mss (subflows meta ! i) = 0))"
proof -
  let ?tps = "subflows meta"
  let ?E = "\<lambda>tp. mptcp_tdm_is_available tp (Some skb) False cl"
  let ?partial = "\<lambda>tp. ?E tp \<and> 0 < sint (quota tp) \<and> sint (quota tp) < sint R"
  let ?idle = "\<lambda>tp. ?E tp \<and> quota tp = 0"
  let ?full = "\<forall>x\<in>set ?tps. ?E x \<longrightarrow> sint R \<le> sint (quota x)"
  let ?sel = "d_skb d \<noteq> None \<and> d_subsk d = Some i"
  let ?inc = "if current_mss (?tps ! i) < skb_len skb
               then DIV_ROUND_UP (skb_len skb) (current_mss (?tps ! i)) else 1"
  let ?goal = "\<lambda>b. length (subflows meta') = length ?tps \<and> d_reinject d = 0 \<and>
     (d_skb d = None \<or> d_skb d = Some skb) \<and>
     subflows meta' ! i = (?tps ! i)\<lparr>quota := b + (if ?sel then ?inc else 0)\<rparr> \<and>
     (?sel \<longrightarrow> 0 \<le> sint b \<and> sint b < max (sint R) 1 \<and>
        \<not> (current_mss (?tps ! i) < skb_len skb \<and> current_mss (?tps ! i) = 0))"
  have chosen: "?goal base"
    if run: "tdm_retry R cl skb ?tps \<lparr>l_iter = 0, l_full_subs = 0, l_choose_sk = None, l_split = R\<rparr> 0
         = Some (?tps, loc, p)"
      and ch: "l_choose_sk loc = Some k" and k: "k < length ?tps" and ek: "?E (?tps ! k)"
      and ne: "\<not> ?full"
      and q0: "0 \<le> sint (quota (?tps ! k))" and qR: "sint (quota (?tps ! k)) < max (sint R) 1"
    for loc p k
  proof -
    from next_segment_quota_branch [OF cand run, of subsk0] ret ch
    have "map_sum id (\<lambda>(tps', dec). (meta\<lparr>subflows := tps'\<rparr>, dec))
                (tdm_found skb ?tps (Some k) (l_split loc) subsk0) = Inr (meta', d)"
      by simp
    note u = quota_update_chosen [OF this k i ne q0 qR]
    from u have "\<not> (?E (?tps ! i) \<and> ?full)" by blast
    with base have "base = quota (?tps ! i)" by simp
    with u show ?thesis by blast
  qed
  have pos: "(0::int) < max (sint R) 1" by (simp add: less_max_iff_disj)
  consider (p1) "\<exists>x\<in>set ?tps. ?partial x"
    | (p2) "\<forall>x\<in>set ?tps. \<not> ?partial x" "\<exists>x\<in>set ?tps. ?idle x" "\<not> ?full"
    | (p3) "\<exists>x\<in>set ?tps. ?E x" ?full
    | (p4) "\<forall>x\<in>set ?tps. \<not> ?partial x" "\<forall>x\<in>set ?tps. \<not> ?idle x"
           "\<not> ((\<exists>x\<in>set ?tps. ?E x) \<and> ?full)"
    by blast
  then show ?thesis
  proof cases
    case p1
    from ex_first_index [OF p1] obtain k where k: "k < length ?tps"
      and pk: "?partial (?tps ! k)" and first: "\<forall>j<k. \<not> ?partial (?tps ! j)"
      by blast
    from tdm_retry_first_partial [OF n k pk first] obtain loc
      where run: "tdm_retry R cl skb ?tps \<lparr>l_iter = 0, l_full_subs = 0, l_choose_sk = None, l_split = R\<rparr> 0
         = Some (?tps, loc, Suc 0)" and ch: "l_choose_sk loc = Some k"
      by blast
    from k pk have "\<not> ?full" by (metis nth_mem not_le)
    from chosen [OF run ch k _ this] pk show ?thesis by simp
  next
    case p2
    from ex_last_index [OF p2(2)] obtain k where k: "k < length ?tps"
      and ik: "?idle (?tps ! k)"
      and last: "\<forall>j. k < j \<and> j < length ?tps \<longrightarrow> \<not> ?idle (?tps ! j)"
      by blast
    from p2(3) have "0 < sint R \<or> (\<exists>x\<in>set ?tps. ?E x \<and> sint (quota x) < sint R)"
      by (metis not_le)
    from tdm_retry_last_idle [OF n k p2(1) this ik last] obtain loc
      where "tdm_retry R cl skb ?tps \<lparr>l_iter = 0, l_full_subs = 0, l_choose_sk = None, l_split = R\<rparr> 0
         = Some (?tps, loc, Suc 0)" "l_choose_sk loc = Some k"
      by blast
    from chosen [OF this k _ p2(3)] ik pos show ?thesis by simp
  next
    case p3
    from ex_last_index [OF p3(1)] obtain k where k: "k < length ?tps"
      and ek: "?E (?tps ! k)"
      and last: "\<forall>j. k < j \<and> j < length ?tps \<longrightarrow> \<not> ?E (?tps ! j)"
      by blast
    from tdm_retry_restart [OF n k p3(2) ek last] obtain loc p
      where run: "tdm_retry R cl skb ?tps \<lparr>l_iter = 0, l_full_subs = 0, l_choose_sk = None, l_split = R\<rparr> 0
         = Some (tdm_reset cl skb ?tps, loc, p)" and ch: "l_choose_sk loc = Some k"
      by blast
    from next_segment_quota_branch [OF cand run, of subsk0] ret ch
    have "map_sum id (\<lambda>(tps', dec). (meta\<lparr>subflows := tps'\<rparr>, dec))
                (tdm_found skb (tdm_reset cl skb ?tps) (Some k) (l_split loc) subsk0) = Inr (meta', d)"
      by simp
    note u = quota_update_restart [OF this k i ek]
    from base p3(2) have b: "base = (if ?E (?tps ! i) then 0 else quota (?tps ! i))" by simp
    from u have "?sel \<longrightarrow> ?E (?tps ! i)" by blast
    with b pos have "?sel \<longrightarrow> 0 \<le> sint base \<and> sint base < max (sint R) 1" by simp
    with u b show ?thesis by (simp only:) blast
  next
    case p4
    from tdm_retry_none [OF n p4] obtain loc
      where run: "tdm_retry R cl skb ?tps \<lparr>l_iter = 0, l_full_subs = 0, l_choose_sk = None, l_split = R\<rparr> 0
         = Some (?tps, loc, Suc 0)" and ch: "l_choose_sk loc = None"
      by blast
    from next_segment_quota_branch [OF cand run, of subsk0] ret ch
    have m: "meta' = meta\<lparr>subflows := ?tps\<rparr>"
      and d: "d = \<lparr>d_skb = None, d_reinject = 0, d_subsk = subsk0, d_limit = 0\<rparr>"
      by (simp_all add: tdm_found_None)
    from i p4(3) have "\<not> (?E (?tps ! i) \<and> ?full)" by (metis nth_mem)
    with base have "base = quota (?tps ! i)" by simp
    with m d show ?thesis by simp
  qed
qed

text \<open>
  C3: a call that returns, with any round size and fewer than 256 subflows
  (a path index has 8 bits), changes nothing of subflow \<open>i\<close> but its quota, and the
  quota after the call is \<open>base\<close> plus the count of the selected segment:
  \<^item> \<open>base\<close> is 0 when the round was restarted for this subflow, and the old quota
    otherwise. The restart happens only in the quota-based branch, only for an available
    subflow (so at least one is available), and only when every available subflow has a
    quota of at least \<open>num_segments\<close>.
  \<^item> The count is added only to the subflow the segment is returned on. It is
    \<open>DIV_ROUND_UP len mss_now\<close> when the segment is longer than \<open>mss_now\<close> and 1
    otherwise; when \<open>num_segments + len\<close> fits the 32-bit \<^verbatim>\<open>int\<close> (with a round size
    below 1 counted as 1), the new quota, read as an integer, is \<open>base\<close> plus the ceiling
    of \<open>len / mss_now\<close> (or plus 1).
  \<^item> Without a restart the quota does not decrease.
\<close>

theorem next_segment_quota_update:
  assumes ret: "mptcp_tdm_next_segment num_segments cwnd_limited meta subsk0 = Some (Inr (meta', d))"
    and n: "length (subflows meta) < 256"
    and i: "i < length (subflows meta)"
  shows "let tp = subflows meta ! i; tp' = subflows meta' ! i;
      avail = (\<lambda>x. mptcp_tdm_is_available x (send_head meta) False cwnd_limited);
      restart = (d_reinject d = 0 \<and> send_head meta \<noteq> None \<and> avail tp \<and>
                 (\<forall>x\<in>set (subflows meta). avail x \<longrightarrow> sint num_segments \<le> sint (quota x)));
      base = (if restart then 0 else quota tp);
      selected = (d_reinject d = 0 \<and> d_skb d \<noteq> None \<and> d_subsk d = Some i)
    in length (subflows meta') = length (subflows meta) \<and>
       (\<not> selected \<longrightarrow> tp' = tp\<lparr>quota := base\<rparr>) \<and>
       (\<forall>skb. selected \<and> d_skb d = Some skb \<longrightarrow>
          tp' = tp\<lparr>quota := base + (if current_mss tp < skb_len skb
                                   then DIV_ROUND_UP (skb_len skb) (current_mss tp) else 1)\<rparr> \<and>
          (max (sint num_segments) 1 + int (unat (skb_len skb)) \<le> 2 ^ 31 \<longrightarrow>
             sint (quota tp') = sint base +
               (if current_mss tp < skb_len skb
                then \<lceil>real (unat (skb_len skb)) / real (unat (current_mss tp))\<rceil> else 1))) \<and>
       (\<not> restart \<and> (\<forall>skb. d_skb d = Some skb \<longrightarrow>
                        max (sint num_segments) 1 + int (unat (skb_len skb)) \<le> 2 ^ 31) \<longrightarrow>
          sint (quota tp) \<le> sint (quota tp'))"
proof -
  define tp where "tp = subflows meta ! i"
  define tp' where "tp' = subflows meta' ! i"
  define restart where "restart \<longleftrightarrow> d_reinject d = 0 \<and> send_head meta \<noteq> None \<and>
      mptcp_tdm_is_available tp (send_head meta) False cwnd_limited \<and>
      (\<forall>x\<in>set (subflows meta). mptcp_tdm_is_available x (send_head meta) False cwnd_limited \<longrightarrow>
          sint num_segments \<le> sint (quota x))"
  define base where "base = (if restart then 0 else quota tp)"
  define sel where "sel \<longleftrightarrow> d_reinject d = 0 \<and> d_skb d \<noteq> None \<and> d_subsk d = Some i"
  define inc where "inc = (\<lambda>skb :: sk_buff. if current_mss tp < skb_len skb
                      then DIV_ROUND_UP (skb_len skb) (current_mss tp) else 1)"
  define step where "step = (\<lambda>skb :: sk_buff. if current_mss tp < skb_len skb
                then \<lceil>real (unat (skb_len skb)) / real (unat (current_mss tp))\<rceil> else 1)"
  define fits where "fits = (\<lambda>skb :: sk_buff.
      max (sint num_segments) 1 + int (unat (skb_len skb)) \<le> 2 ^ 31)"
  obtain c r where dn: "dunder_mptcp_tdm_next_segment meta = (c, r)"
    by (cases "dunder_mptcp_tdm_next_segment meta")
  have main: "length (subflows meta') = length (subflows meta) \<and>
       (\<not> sel \<longrightarrow> tp' = tp\<lparr>quota := base\<rparr>) \<and>
       (\<forall>skb. sel \<and> d_skb d = Some skb \<longrightarrow>
          tp' = tp\<lparr>quota := base + inc skb\<rparr> \<and>
          (fits skb \<longrightarrow> sint (quota tp') = sint base + step skb))"
  proof (cases "\<exists>skb. c = Some skb \<and> r = 0")
    case False
    have same: "subflows meta' = subflows meta"
      using ret dn False
      by (cases c) (auto simp: mptcp_tdm_next_segment_def Let_def split: if_splits prod.splits)
    have off: "d_reinject d \<noteq> 0 \<or> (d_skb d = None \<and> send_head meta = None)"
    proof (cases c)
      case None
      with dn have "send_head meta = None"
        by (auto simp: dunder_mptcp_tdm_next_segment_def split: if_splits list.splits)
      moreover from None ret dn have "d_skb d = None"
        by (auto simp: mptcp_tdm_next_segment_def)
      ultimately show ?thesis by simp
    next
      case (Some s)
      with False have "r \<noteq> 0" by simp
      with Some ret dn show ?thesis
        by (auto simp: mptcp_tdm_next_segment_def Let_def split: prod.splits)
    qed
    from off have ns: "\<not> sel"
      unfolding sel_def by auto
    from off have nr: "\<not> restart"
      unfolding restart_def by auto
    from nr have "base = quota tp" by (simp add: base_def)
    with same have "tp' = tp\<lparr>quota := base\<rparr>" by (simp add: tp'_def tp_def)
    with same ns show ?thesis by simp
  next
    case True
    then obtain skb where c: "c = Some skb" and r: "r = 0" by blast
    from dn c r have cand: "dunder_mptcp_tdm_next_segment meta = (Some skb, 0)" by simp
    then have head: "send_head meta = Some skb"
      by (auto simp: dunder_mptcp_tdm_next_segment_def split: if_splits list.splits)
    define b0 where "b0 = (if mptcp_tdm_is_available (subflows meta ! i) (Some skb) False cwnd_limited \<and>
          (\<forall>x\<in>set (subflows meta). mptcp_tdm_is_available x (Some skb) False cwnd_limited \<longrightarrow>
              sint num_segments \<le> sint (quota x))
        then 0 else quota (subflows meta ! i))"
    from quota_branch_update [OF cand ret n i b0_def]
    have u1: "length (subflows meta') = length (subflows meta)" and u2: "d_reinject d = 0"
      and u3: "d_skb d = None \<or> d_skb d = Some skb"
      and u4: "tp' = tp\<lparr>quota := b0 + (if d_skb d \<noteq> None \<and> d_subsk d = Some i
           then inc skb else 0)\<rparr>"
      and u5: "d_skb d \<noteq> None \<and> d_subsk d = Some i \<longrightarrow>
        0 \<le> sint b0 \<and> sint b0 < max (sint num_segments) 1 \<and>
        \<not> (current_mss tp < skb_len skb \<and> current_mss tp = 0)"
      unfolding tp_def tp'_def inc_def by blast+
    from u2 head have b: "base = b0"
      by (auto simp: base_def b0_def restart_def tp_def)
    from u2 have sel_eq: "sel \<longleftrightarrow> d_skb d \<noteq> None \<and> d_subsk d = Some i"
      by (simp add: sel_def)
    have p2: "\<not> sel \<longrightarrow> tp' = tp\<lparr>quota := base\<rparr>"
    proof
      assume "\<not> sel"
      with sel_eq have "\<not> (d_skb d \<noteq> None \<and> d_subsk d = Some i)" by blast
      with u4 have "tp' = tp\<lparr>quota := b0 + 0\<rparr>" by (simp only: if_False simp_thms)
      with b show "tp' = tp\<lparr>quota := base\<rparr>" by simp
    qed
    have p3: "tp' = tp\<lparr>quota := base + inc s\<rparr> \<and>
          (fits s \<longrightarrow> sint (quota tp') = sint base + step s)"
      if "sel \<and> d_skb d = Some s" for s
    proof -
      from that u3 have s: "s = skb" by auto
      from that sel_eq have sel': "d_skb d \<noteq> None \<and> d_subsk d = Some i" by blast
      with u4 have t: "tp' = tp\<lparr>quota := b0 + inc skb\<rparr>" by (simp only: if_True simp_thms)
      from sel' u5 have q0: "0 \<le> sint b0" and qR: "sint b0 < max (sint num_segments) 1"
        and nf: "\<not> (current_mss tp < skb_len skb \<and> current_mss tp = 0)"
        by blast+
      have "sint (quota tp') = sint b0 + step skb" if "fits skb"
      proof -
        from that have rg: "max (sint num_segments) 1 + int (unat (skb_len skb)) \<le> 2 ^ 31"
          by (simp add: fits_def)
        from quota_step_int [OF q0 qR rg nf] t show ?thesis
          by (simp add: inc_def step_def)
      qed
      with t s b show ?thesis by simp
    qed
    from u1 p2 p3 show ?thesis by blast
  qed
  have mono: "\<not> restart \<and> (\<forall>skb. d_skb d = Some skb \<longrightarrow> fits skb) \<longrightarrow>
          sint (quota tp) \<le> sint (quota tp')"
  proof
    assume a: "\<not> restart \<and> (\<forall>skb. d_skb d = Some skb \<longrightarrow> fits skb)"
    then have b: "base = quota tp" by (simp add: base_def)
    show "sint (quota tp) \<le> sint (quota tp')"
    proof (cases sel)
      case False
      with main b have "tp' = tp\<lparr>quota := quota tp\<rparr>" by simp
      then show ?thesis by simp
    next
      case True
      then obtain s where s: "d_skb d = Some s" by (auto simp: sel_def)
      with a have "fits s" by blast
      with main True s have "sint (quota tp') = sint base + step s" by blast
      with b have "sint (quota tp') = sint (quota tp) + step s" by (simp only:)
      moreover have "0 \<le> step s"
      proof -
        have "(0::real) \<le> real (unat (skb_len s)) / real (unat (current_mss tp))"
          by (rule divide_nonneg_nonneg) (rule of_nat_0_le_iff)+
        then have "(0::int) \<le> \<lceil>real (unat (skb_len s)) / real (unat (current_mss tp))\<rceil>"
          by linarith
        then show ?thesis by (simp only: step_def split: if_split) simp
      qed
      ultimately show ?thesis by linarith
    qed
  qed
  from main mono show ?thesis
    unfolding Let_def tp_def tp'_def restart_def base_def sel_def inc_def step_def fits_def
    by blast
qed

theorem next_segment_quota_update_witness:
  "mptcp_tdm_next_segment 5 True
      ((ex_meta [ex_sub\<lparr>quota := 5\<rparr>])\<lparr>send_head := Some (ex_skb\<lparr>skb_len := 3000\<rparr>)\<rparr>) None =
     Some (Inr ((ex_meta [ex_sub\<lparr>quota := 3\<rparr>])\<lparr>send_head := Some (ex_skb\<lparr>skb_len := 3000\<rparr>)\<rparr>,
           \<lparr>d_skb = Some (ex_skb\<lparr>skb_len := 3000\<rparr>), d_reinject = 0, d_subsk = Some 0,
            d_limit = 7300\<rparr>)) \<and>
   0 < sint (5 :: c_int) \<and>
   mptcp_tdm_is_available (ex_sub\<lparr>quota := 5\<rparr>) (Some (ex_skb\<lparr>skb_len := 3000\<rparr>)) False True \<and>
   sint (5 :: c_int) \<le> sint (quota (ex_sub\<lparr>quota := 5\<rparr>)) \<and>
   DIV_ROUND_UP 3000 1460 = 3 \<and>
   length (subflows ((ex_meta [ex_sub\<lparr>quota := 3\<rparr>])\<lparr>send_head := Some (ex_skb\<lparr>skb_len := 3000\<rparr>)\<rparr>))
     = length (subflows ((ex_meta [ex_sub\<lparr>quota := 5\<rparr>])\<lparr>send_head := Some (ex_skb\<lparr>skb_len := 3000\<rparr>)\<rparr>))"
proof -
  let ?m = "(ex_meta [ex_sub\<lparr>quota := 5\<rparr>])\<lparr>send_head := Some (ex_skb\<lparr>skb_len := 3000\<rparr>)\<rparr>"
  let ?m' = "(ex_meta [ex_sub\<lparr>quota := 3\<rparr>])\<lparr>send_head := Some (ex_skb\<lparr>skb_len := 3000\<rparr>)\<rparr>"
  let ?d = "\<lparr>d_skb = Some (ex_skb\<lparr>skb_len := 3000\<rparr>), d_reinject = 0, d_subsk = Some (0::nat),
            d_limit = 7300\<rparr>"
  have run: "mptcp_tdm_next_segment 5 True ?m None = Some (Inr (?m', ?d))"
    by (simp add: mptcp_tdm_next_segment_def dunder_mptcp_tdm_next_segment_def tdm_retry.simps
        tdm_reset_def tdm_found_def mptcp_tdm_is_available_def DIV_ROUND_UP_def ex_sub_def
        ex_skb_def ex_meta_def)
  have R: "0 < sint (5 :: c_int)" by simp
  have n: "length (subflows ?m) < 256" and i: "0 < length (subflows ?m)"
    by (simp_all add: ex_meta_def)
  have av: "mptcp_tdm_is_available (ex_sub\<lparr>quota := 5\<rparr>) (Some (ex_skb\<lparr>skb_len := 3000\<rparr>)) False True"
    by (simp add: mptcp_tdm_is_available_def ex_sub_def)
  have full: "sint (5 :: c_int) \<le> sint (quota (ex_sub\<lparr>quota := 5\<rparr>))" by simp
  have dv: "DIV_ROUND_UP 3000 1460 = 3" by (simp add: DIV_ROUND_UP_def)
  from next_segment_quota_update [OF run n i]
  have "length (subflows ?m') = length (subflows ?m)"
    unfolding Let_def by (rule conjunct1)
  with run R av full dv show ?thesis by simp
qed

section \<open>A round size that is not positive\<close>

lemma tdm_retry_nonpos:
  assumes R: "sint R \<le> 0"
  shows "\<exists>tps' loc p.
     tdm_retry R cl skb tps \<lparr>l_iter = 0, l_full_subs = 0, l_choose_sk = None, l_split = R\<rparr> 0
       = Some (tps', loc, p) \<and> p \<le> 256"
proof -
  let ?E = "\<lambda>tp. mptcp_tdm_is_available tp (Some skb) False cl"
  let ?loc0 = "\<lparr>l_iter = 0, l_full_subs = 0, l_choose_sk = None, l_split = R\<rparr>"
  let ?r = "tdm_scan R cl skb tps 0 ?loc0"
  let ?tps = "tdm_reset cl skb tps"
  have nf: "\<not> fst ?r" by (rule tdm_scan_nonpos [OF R])
  show ?thesis
  proof (cases "l_iter (snd ?r) \<noteq> 0 \<and> l_iter (snd ?r) = l_full_subs (snd ?r)")
    case False
    with nf have "tdm_retry R cl skb tps ?loc0 0 = Some (tps, snd ?r, Suc 0)"
      by (auto simp: tdm_retry.simps [of R cl skb tps ?loc0 0] Let_def)
    then show ?thesis by simp
  next
    case True
    with nf have first: "tdm_retry R cl skb tps ?loc0 0 = tdm_retry R cl skb ?tps (snd ?r) (Suc 0)"
      by (auto simp: tdm_retry.simps [of R cl skb tps ?loc0 0] Let_def)
    have idle: "\<forall>tp\<in>set ?tps. ?E tp \<longrightarrow> quota tp = 0"
      by (auto dest: tdm_reset_idle)
    from tdm_scan_iter [OF nf]
    have it: "l_iter (snd ?r) = of_nat (Suc 0 * length (filter ?E ?tps))"
      by (simp add: tdm_reset_filter)
    from True have fu: "l_full_subs (snd ?r) = l_iter (snd ?r)" by simp
    from tdm_retry_nonpos_loop [OF R idle it fu, of "Suc 0"] first
    show ?thesis by auto
  qed
qed

lemma next_segment_returns_nonpos:
  assumes R: "sint R \<le> 0"
  shows "\<exists>r. mptcp_tdm_next_segment R cl meta subsk0 = Some r"
proof (cases "dunder_mptcp_tdm_next_segment meta")
  case (Pair skb reinject)
  show ?thesis
  proof (cases skb)
    case None
    with Pair show ?thesis by (simp add: mptcp_tdm_next_segment_def)
  next
    case (Some s)
    from tdm_retry_nonpos [OF R, of cl s "subflows meta"] obtain tps loc passes
      where "tdm_retry R cl s (subflows meta)
         \<lparr>l_iter = 0, l_full_subs = 0, l_choose_sk = None, l_split = R\<rparr> 0 = Some (tps, loc, passes)"
      by blast
    with Pair Some show ?thesis
      by (simp add: mptcp_tdm_next_segment_def Let_def split: prod.splits)
  qed
qed

text \<open>
  C9, as stated, fails: nothing stands between a round size of -1 and a scheduling
  call. The call runs with it: the only subflow, unused, is also counted as full, the
  round is restarted until the 8-bit counter \<^verbatim>\<open>iter\<close> wraps to 0 (256 scans), and the
  segment is returned with the byte limit \<open>-1 * 1460\<close> in 32 bits.
\<close>

theorem nonpositive_round_size_counterexample:
  "sint (- 1 :: c_int) \<le> 0 \<and>
   mptcp_tdm_next_segment (- 1) True (ex_meta [ex_sub]) None =
     Some (Inr (ex_meta [ex_sub\<lparr>quota := 1\<rparr>],
           \<lparr>d_skb = Some ex_skb, d_reinject = 0, d_subsk = Some 0, d_limit = 4294965836\<rparr>)) \<and>
   tdm_retry (- 1) True ex_skb [ex_sub]
       \<lparr>l_iter = 0, l_full_subs = 0, l_choose_sk = None, l_split = - 1\<rparr> 0 =
     Some ([ex_sub], \<lparr>l_iter = 0, l_full_subs = 0, l_choose_sk = Some 0, l_split = - 1\<rparr>, 256)"
  by code_simp

text \<open>
  C9, amended: the round size is an \<^verbatim>\<open>int\<close> module parameter with the positive initial
  value 10000, and the scheduler reads it unchecked. A call with a round size that is
  not positive is not rejected: it returns, after at most 256 passes through the
  \<^verbatim>\<open>retry\<close> label, and its scan never leaves by \<^verbatim>\<open>goto found\<close>, since no quota lies
  strictly between 0 and the round size.
\<close>

theorem nonpositive_round_size_runs:
  assumes "sint num_segments \<le> 0"
  shows "0 < sint num_segments_default \<and>
    (\<exists>r. mptcp_tdm_next_segment num_segments cwnd_limited meta subsk0 = Some r) \<and>
    (\<exists>tps' loc' passes.
       tdm_retry num_segments cwnd_limited skb (subflows meta)
         \<lparr>l_iter = 0, l_full_subs = 0, l_choose_sk = None, l_split = num_segments\<rparr> 0
         = Some (tps', loc', passes) \<and> passes \<le> 256) \<and>
    \<not> fst (tdm_scan num_segments cwnd_limited skb tps i loc)"
  using tdm_retry_nonpos [OF assms] next_segment_returns_nonpos [OF assms]
    tdm_scan_nonpos [OF assms]
  by (simp add: num_segments_default_def)

theorem nonpositive_round_size_runs_witness:
  "sint (0 :: c_int) \<le> 0 \<and>
   mptcp_tdm_next_segment 0 True (ex_meta [ex_sub2, ex_sub\<lparr>quota := 4\<rparr>]) None =
     Some (Inr (ex_meta [ex_sub2, ex_sub\<lparr>quota := 1\<rparr>],
           \<lparr>d_skb = Some ex_skb, d_reinject = 0, d_subsk = Some 1, d_limit = 0\<rparr>)) \<and>
   tdm_retry 0 True ex_skb (subflows (ex_meta [ex_sub2, ex_sub\<lparr>quota := 4\<rparr>]))
       \<lparr>l_iter = 0, l_full_subs = 0, l_choose_sk = None, l_split = 0\<rparr> 0 =
     Some ([ex_sub2, ex_sub],
           \<lparr>l_iter = 0, l_full_subs = 0, l_choose_sk = Some 1, l_split = 0\<rparr>, 128)"
proof -
  have h: "sint (0 :: c_int) \<le> 0" by simp
  have run: "mptcp_tdm_next_segment 0 True (ex_meta [ex_sub2, ex_sub\<lparr>quota := 4\<rparr>]) None =
     Some (Inr (ex_meta [ex_sub2, ex_sub\<lparr>quota := 1\<rparr>],
           \<lparr>d_skb = Some ex_skb, d_reinject = 0, d_subsk = Some 1, d_limit = 0\<rparr>))"
    by code_simp
  have loop: "tdm_retry 0 True ex_skb (subflows (ex_meta [ex_sub2, ex_sub\<lparr>quota := 4\<rparr>]))
       \<lparr>l_iter = 0, l_full_subs = 0, l_choose_sk = None, l_split = 0\<rparr> 0 =
     Some ([ex_sub2, ex_sub],
           \<lparr>l_iter = 0, l_full_subs = 0, l_choose_sk = Some 1, l_split = 0\<rparr>, 128)"
    by code_simp
  from nonpositive_round_size_runs [OF h, of True "ex_meta [ex_sub2, ex_sub\<lparr>quota := 4\<rparr>]" None]
  have "\<exists>r. mptcp_tdm_next_segment 0 True (ex_meta [ex_sub2, ex_sub\<lparr>quota := 4\<rparr>]) None = Some r"
    by blast
  with h run loop show ?thesis by simp
qed

end
